theory Spec2Isabelle
  imports Main "HOL-Library.Sublist"
begin

section \<open>The message table (package db)\<close>

text \<open>
  Go's \<^verbatim>\<open>time.Time\<close> is modelled as a number of nanoseconds, Go's \<^verbatim>\<open>int\<close> and
  \<^verbatim>\<open>int64\<close> as \<^typ>\<open>int\<close>, a Go \<^verbatim>\<open>string\<close> as the list of its bytes
  (\<^typ>\<open>string\<close>, so that \<^term>\<open>length\<close> is Go's \<^verbatim>\<open>len\<close>), and a nullable
  pointer field as an \<^typ>\<open>'a option\<close>. Every reading of the clock is an argument
  of the function that reads it, and so is every answer of the database driver and
  of the webhook receiver. Go's \<^verbatim>\<open>int\<close> has 64 bits and \<^verbatim>\<open>++\<close> wraps: the counter of
  the claiming loop, compared with \<^verbatim>\<open><\<close>, stops below its bound and never wraps; the
  counter of the retry loop, compared with \<^verbatim>\<open><=\<close>, wraps when the bound is the largest
  \<^verbatim>\<open>int\<close>, and its wrap is written out.
\<close>

definition max_int :: int where
  "max_int = 9223372036854775807"

definition min_int :: int where
  "min_int = - 9223372036854775808"

text \<open>\<^verbatim>\<open>i++\<close> on a Go \<^verbatim>\<open>int\<close>.\<close>

definition int_inc :: "int \<Rightarrow> int" where
  "int_inc i = (if i = max_int then min_int else i + 1)"

type_synonym time = int

type_synonym MessageStatus = string

definition MessageStatusPending :: MessageStatus where
  "MessageStatusPending = ''pending''"

definition MessageStatusSending :: MessageStatus where
  "MessageStatusSending = ''sending''"

definition MessageStatusSent :: MessageStatus where
  "MessageStatusSent = ''sent''"

definition MessageStatusFailed :: MessageStatus where
  "MessageStatusFailed = ''failed''"

definition MaxMessageLength :: int where
  "MaxMessageLength = 160"

record Message =
  ID :: int
  To :: string
  Content :: string
  Status :: MessageStatus
  SentAt :: "time option"
  MessageID :: "string option"
  WebhookResponse :: "string option"
  CreatedAt :: time
  UpdatedAt :: time

text \<open>
  The errors of the whole program. \<open>StoreError\<close> is whatever the database driver
  reports (a lost connection, a cancelled context); \<open>ConstraintViolation\<close> is the
  database refusing a row.
\<close>

datatype error =
    ErrMessageTooLong
  | StoreError string
  | ConstraintViolation string
  | ErrCreateRequest string
  | ErrRequestFailed string
  | ErrWebhookStatus int
  | ContextError string

text \<open>
  The table as the migration creates it: the rows in insertion order and the
  sequence behind the auto-incremented primary key.
\<close>

record db =
  rows :: "Message list"
  next_id :: int

definition empty_db :: db where
  "empty_db = \<lparr>rows = [], next_id = 1\<rparr>"

text \<open>
  The two check constraints of the migration. PostgreSQL's \<^verbatim>\<open>length\<close> counts
  characters: in UTF-8, the bytes that are not continuation bytes (\<^verbatim>\<open>10xxxxxx\<close>).
\<close>

definition utf8_continuation :: "char \<Rightarrow> bool" where
  "utf8_continuation c \<longleftrightarrow> (128::nat) \<le> of_char c \<and> (of_char c :: nat) < 192"

definition character_count :: "string \<Rightarrow> nat" where
  "character_count s = length (filter (\<lambda>c. \<not> utf8_continuation c) s)"

definition check_content_length :: "Message \<Rightarrow> bool" where
  "check_content_length m \<longleftrightarrow> character_count (Content m) \<le> 1000"

definition is_digit :: "char \<Rightarrow> bool" where
  "is_digit c \<longleftrightarrow> c \<in> set ''0123456789''"

text \<open>The pattern \<^verbatim>\<open>^\+[1-9]\d{1,14}$\<close>.\<close>

definition check_phone_format :: "Message \<Rightarrow> bool" where
  "check_phone_format m \<longleftrightarrow>
     (case To m of
        p # d # ds \<Rightarrow>
          p = CHR ''+'' \<and> is_digit d \<and> d \<noteq> CHR ''0'' \<and>
          1 \<le> length ds \<and> length ds \<le> 14 \<and> list_all is_digit ds
      | _ \<Rightarrow> False)"

text \<open>
  \<^verbatim>\<open>db.NewInsert().Model(message).Exec(ctx)\<close>: a zero \<open>ID\<close> takes the next value
  of the sequence, any other \<open>ID\<close> is inserted as given; the primary key and the two
  check constraints are enforced. \<open>fault\<close> is the driver's error, if the driver
  fails.
\<close>

definition insert_row :: "string option \<Rightarrow> Message \<Rightarrow> db \<Rightarrow> error option \<times> db" where
  "insert_row fault m d =
     (case fault of
        Some e \<Rightarrow> (Some (StoreError e), d)
      | None \<Rightarrow>
          (let (i, d1) = (if ID m = 0 then (next_id d, d\<lparr>next_id := next_id d + 1\<rparr>)
                          else (ID m, d))
           in if i \<in> set (map ID (rows d1)) then
                (Some (ConstraintViolation ''messages_pkey''), d1)
              else if \<not> check_content_length m then
                (Some (ConstraintViolation ''check_content_length''), d1)
              else if \<not> check_phone_format m then
                (Some (ConstraintViolation ''check_phone_format''), d1)
              else (None, d1\<lparr>rows := rows d1 @ [m\<lparr>ID := i\<rparr>]\<rparr>)))"

text \<open>\<^verbatim>\<open>CreateMessage\<close>; the clock is read twice.\<close>

definition CreateMessage ::
  "time \<Rightarrow> time \<Rightarrow> string option \<Rightarrow> Message \<Rightarrow> db \<Rightarrow> error option \<times> db" where
  "CreateMessage now1 now2 fault message d =
     (if int (length (Content message)) > MaxMessageLength then (Some ErrMessageTooLong, d)
      else insert_row fault
             (message\<lparr>CreatedAt := now1, UpdatedAt := now2, Status := MessageStatusPending\<rparr>) d)"

text \<open>
  The subquery of \<^verbatim>\<open>ClaimNextMessage\<close>:
  \<^verbatim>\<open>SELECT id FROM messages WHERE status = 'pending' ORDER BY created_at ASC LIMIT 1\<close>.
  Among rows of equal \<open>created_at\<close> the database may pick any; the model picks the
  first in table order.
\<close>

definition oldest_pending :: "Message list \<Rightarrow> int option" where
  "oldest_pending rs =
     (case sort_key CreatedAt (filter (\<lambda>m. Status m = MessageStatusPending) rs) of
        [] \<Rightarrow> None
      | m # _ \<Rightarrow> Some (ID m))"

definition claim_row :: "time \<Rightarrow> int \<Rightarrow> Message \<Rightarrow> Message" where
  "claim_row now sel m =
     (if ID m = sel then m\<lparr>Status := MessageStatusSending, UpdatedAt := now\<rparr> else m)"

text \<open>
  \<^verbatim>\<open>ClaimNextMessage\<close>: the \<^verbatim>\<open>UPDATE ... WHERE id = (...) RETURNING *\<close> scanned into
  one struct. No returned row is \<^verbatim>\<open>sql.ErrNoRows\<close>, which the function turns into
  \<^verbatim>\<open>(nil, nil)\<close>, as it does a returned row whose \<open>ID\<close> is zero.
\<close>

definition ClaimNextMessage ::
  "time \<Rightarrow> string option \<Rightarrow> db \<Rightarrow> (error + Message option) \<times> db" where
  "ClaimNextMessage now fault d =
     (case fault of
        Some e \<Rightarrow> (Inl (StoreError e), d)
      | None \<Rightarrow>
          (case oldest_pending (rows d) of
             None \<Rightarrow> (Inr None, d)
           | Some sel \<Rightarrow>
               (let d1 = d\<lparr>rows := map (claim_row now sel) (rows d)\<rparr>
                in case filter (\<lambda>m. ID m = sel) (rows d1) of
                     [] \<Rightarrow> (Inr None, d1)
                   | message # _ \<Rightarrow>
                       if ID message = 0 then (Inr None, d1)
                       else (Inr (Some message), d1))))"

text \<open>
  \<^verbatim>\<open>UpdateMessageStatus\<close>: \<open>status\<close> and \<open>updated_at\<close> are always set, each of the
  three optional columns only when its pointer is not nil. An update that matches
  no row is not an error.
\<close>

definition update_row ::
  "time \<Rightarrow> MessageStatus \<Rightarrow> time option \<Rightarrow> string option \<Rightarrow> string option \<Rightarrow>
   Message \<Rightarrow> Message" where
  "update_row now status sentAt webhookMessageID webhookResponse m =
     m\<lparr>Status := status,
       UpdatedAt := now,
       SentAt := (case sentAt of None \<Rightarrow> SentAt m | Some t \<Rightarrow> Some t),
       MessageID := (case webhookMessageID of None \<Rightarrow> MessageID m | Some s \<Rightarrow> Some s),
       WebhookResponse :=
         (case webhookResponse of None \<Rightarrow> WebhookResponse m | Some s \<Rightarrow> Some s)\<rparr>"

definition UpdateMessageStatus ::
  "time \<Rightarrow> string option \<Rightarrow> db \<Rightarrow> int \<Rightarrow> MessageStatus \<Rightarrow> time option \<Rightarrow>
   string option \<Rightarrow> string option \<Rightarrow> error option \<times> db" where
  "UpdateMessageStatus now fault d messageID status sentAt webhookMessageID webhookResponse =
     (case fault of
        Some e \<Rightarrow> (Some (StoreError e), d)
      | None \<Rightarrow>
          (None,
           d\<lparr>rows :=
               map (\<lambda>m. if ID m = messageID
                         then update_row now status sentAt webhookMessageID webhookResponse m
                         else m)
                   (rows d)\<rparr>))"

section \<open>The webhook client (package webhook)\<close>

record MessagePayload =
  payload_to :: string
  payload_content :: string

text \<open>The struct \<^verbatim>\<open>Response\<close> (fields \<^verbatim>\<open>StatusCode, Message, MessageID, Timestamp\<close>).\<close>

record Response =
  StatusCode :: int
  ResponseMessage :: string
  ResponseMessageID :: string
  Timestamp :: time

text \<open>
  What one \<^verbatim>\<open>POST\<close> gives: the request could not be built, the transport
  failed (which includes a cancelled or expired context), or the receiver replied.
  A reply carries its status code and what \<^verbatim>\<open>json.Decoder.Decode\<close> left in the
  two fields of \<^verbatim>\<open>responseBody\<close>, with whether it returned an error.
  (\<^verbatim>\<open>json.Marshal\<close> of the payload, a struct of two strings, does not fail.)
\<close>

record http_reply =
  reply_status :: int
  decoded_message :: string
  decoded_messageId :: string
  decode_error :: bool

datatype http_result =
    CreateRequestFailed string
  | DoFailed string
  | Replied http_reply

definition SendMessage :: "time \<Rightarrow> http_result \<Rightarrow> Response option \<times> error option" where
  "SendMessage now res =
     (case res of
        CreateRequestFailed e \<Rightarrow> (None, Some (ErrCreateRequest e))
      | DoFailed e \<Rightarrow> (None, Some (ErrRequestFailed e))
      | Replied r \<Rightarrow>
          (let webhookResponse =
                 \<lparr>StatusCode = reply_status r,
                  ResponseMessage =
                    (if decode_error r then ''failed to decode response''
                     else decoded_message r),
                  ResponseMessageID = decoded_messageId r,
                  Timestamp = now\<rparr>
           in if reply_status r < 200 \<or> reply_status r \<ge> 300
              then (Some webhookResponse, Some (ErrWebhookStatus (reply_status r)))
              else (Some webhookResponse, None)))"

text \<open>Whether \<^verbatim>\<open>httpClient.Do\<close> was called: the HTTP attempts a receiver can observe.\<close>

definition requests_made :: "http_result \<Rightarrow> nat" where
  "requests_made res = (case res of CreateRequestFailed _ \<Rightarrow> 0 | _ \<Rightarrow> 1)"

text \<open>
  The surroundings of one \<^verbatim>\<open>SendMessageWithRetry\<close> call, by the number of attempts
  made before: what the \<^verbatim>\<open>POST\<close> of that attempt gives, the clock at that attempt,
  and whether the \<^verbatim>\<open>select\<close> before that attempt takes \<^verbatim>\<open>ctx.Done()\<close> rather than the
  timer.
\<close>

record send_env =
  post :: "nat \<Rightarrow> MessagePayload \<Rightarrow> http_result"
  clock :: "nat \<Rightarrow> time"
  ctx_done :: "nat \<Rightarrow> bool"
  ctx_err :: string

text \<open>
  The loop of \<^verbatim>\<open>SendMessageWithRetry\<close>, from \<open>attempt\<close> on: \<open>step\<close> is the number
  of attempts made before and \<open>n\<close> the number of HTTP requests made before. The loop
  need not end (the receiver may fail for ever under a bound that the counter never
  passes): the value \<open>None\<close> is a call that never returns.
\<close>

partial_function (option) retry_loop ::
  "int \<Rightarrow> send_env \<Rightarrow> MessagePayload \<Rightarrow> int \<Rightarrow> nat \<Rightarrow> Response option \<Rightarrow> error option \<Rightarrow>
   nat \<Rightarrow> (Response option \<times> error option \<times> nat) option" where
  "retry_loop maxRetries env payload attempt step lastResponse lastErr n =
     (if attempt \<le> maxRetries then
        (if attempt > 0 \<and> ctx_done env step then
           Some (lastResponse, Some (ContextError (ctx_err env)), n)
         else
           (case SendMessage (clock env step) (post env step payload) of
              (response, None) \<Rightarrow>
                Some (response, None, n + requests_made (post env step payload))
            | (response, Some err) \<Rightarrow>
                retry_loop maxRetries env payload (int_inc attempt) (Suc step) response
                  (Some err) (n + requests_made (post env step payload))))
      else Some (lastResponse, lastErr, n))"

declare retry_loop.simps [code]

section \<open>The configuration (package config)\<close>

record Messaging =
  Interval :: int
  BatchSize :: int
  MaxRetries :: int
  RetryDelay :: int
  Enabled :: bool

record Cfg =
  AppName :: string
  ServerAddress :: string
  ServerMode :: string
  DatabaseDSN :: string
  MessagingCfg :: Messaging
  WebhookURL :: string

text \<open>\<^verbatim>\<open>Cfg.validate\<close>: the only check a loaded configuration goes through.\<close>

definition validate :: "Cfg \<Rightarrow> string option" where
  "validate cfg =
     (if ServerMode cfg \<noteq> ''prod'' \<and> ServerMode cfg \<noteq> ''dev''
      then Some ''server mode is required''
      else if DatabaseDSN cfg = [] then Some ''database DSN is required''
      else None)"

text \<open>
  \<^verbatim>\<open>SendMessageWithRetry\<close> and the number of HTTP requests it makes, when it returns.
\<close>

definition SendMessageWithRetry ::
  "Cfg \<Rightarrow> send_env \<Rightarrow> MessagePayload \<Rightarrow> (Response option \<times> error option) option" where
  "SendMessageWithRetry cfg env payload =
     map_option (\<lambda>(r, e, n). (r, e))
       (retry_loop (MaxRetries (MessagingCfg cfg)) env payload 0 0 None None 0)"

definition http_attempts :: "Cfg \<Rightarrow> send_env \<Rightarrow> MessagePayload \<Rightarrow> nat option" where
  "http_attempts cfg env payload =
     map_option (\<lambda>(r, e, n). n)
       (retry_loop (MaxRetries (MessagingCfg cfg)) env payload 0 0 None None 0)"

section \<open>The scheduler (package service)\<close>

text \<open>
  \<^verbatim>\<open>dto.MessagingControlResponse\<close>, with the embedded \<^verbatim>\<open>BaseResponse\<close>; the fields
  carry their JSON names.
\<close>

record BaseResponse =
  status :: string
  timestamp :: time

record MessagingControlResponse = BaseResponse +
  message :: string

text \<open>
  The mutable part of \<^verbatim>\<open>Scheduler\<close>: the flag, the stop channel (open or
  closed) and the number of \<^verbatim>\<open>processMessages\<close> goroutines started so far.
\<close>

datatype stop_channel = OpenCh | ClosedCh

record Scheduler =
  running :: bool
  stopCh :: stop_channel
  loops :: nat

datatype 'a outcome = Returns 'a | Panics string

definition NewScheduler :: Scheduler where
  "NewScheduler = \<lparr>running = False, stopCh = OpenCh, loops = 0\<rparr>"

definition Start ::
  "time \<Rightarrow> Scheduler \<Rightarrow> (MessagingControlResponse \<times> error option) \<times> Scheduler" where
  "Start now s =
     (if running s then
        ((\<lparr>status = ''error'', timestamp = now,
           message = ''Messaging service is already running''\<rparr>, None), s)
      else
        ((\<lparr>status = ''success'', timestamp = now,
           message = ''Messaging service started successfully''\<rparr>, None),
         s\<lparr>running := True, stopCh := OpenCh, loops := loops s + 1\<rparr>))"

text \<open>Closing a channel that is already closed panics.\<close>

definition Stop ::
  "time \<Rightarrow> Scheduler \<Rightarrow>
   ((MessagingControlResponse \<times> error option) \<times> Scheduler) outcome" where
  "Stop now s =
     (if \<not> running s then
        Returns ((\<lparr>status = ''error'', timestamp = now,
                   message = ''Messaging service is not running''\<rparr>, None), s)
      else
        (case stopCh s of
           ClosedCh \<Rightarrow> Panics ''close of closed channel''
         | OpenCh \<Rightarrow>
             Returns ((\<lparr>status = ''success'', timestamp = now,
                        message = ''Messaging service stopped successfully''\<rparr>, None),
                      s\<lparr>running := False, stopCh := ClosedCh\<rparr>)))"

definition IsRunning :: "Scheduler \<Rightarrow> bool" where
  "IsRunning s = running s"

text \<open>The scheduler states that \<^verbatim>\<open>NewScheduler\<close>, \<^verbatim>\<open>Start\<close> and \<^verbatim>\<open>Stop\<close> produce.\<close>

inductive sched_reachable :: "Scheduler \<Rightarrow> bool" where
  new: "sched_reachable NewScheduler"
| start: "sched_reachable s \<Longrightarrow> sched_reachable (snd (Start now s))"
| stop: "sched_reachable s \<Longrightarrow> Stop now s = Returns (r, s') \<Longrightarrow> sched_reachable s'"

text \<open>
  The surroundings of one worker: those of its \<^verbatim>\<open>SendMessageWithRetry\<close> call, the
  clock read on the success path, and the clock and the driver's answer inside
  \<^verbatim>\<open>UpdateMessageStatus\<close>.
\<close>

record worker_env =
  send :: send_env
  sent_now :: time
  update_now :: time
  update_fault :: "string option"

text \<open>
  \<^verbatim>\<open>processMessage\<close>. \<open>enc\<close> is \<^verbatim>\<open>json.Marshal\<close> on a \<^verbatim>\<open>Response\<close>. The result
  is the table afterwards and the panic, if the function panics: with a nil response
  and a nil error, \<^verbatim>\<open>json.Marshal\<close> gives \<^verbatim>\<open>null\<close> and reading
  \<^verbatim>\<open>response.MessageID\<close> dereferences the nil pointer. Errors of
  \<^verbatim>\<open>UpdateMessageStatus\<close> are logged and dropped. The function does not return
  when \<^verbatim>\<open>SendMessageWithRetry\<close> does not.
\<close>

definition processMessage ::
  "Cfg \<Rightarrow> (Response \<Rightarrow> string) \<Rightarrow> worker_env \<Rightarrow> db \<Rightarrow> Message \<Rightarrow>
   (string option \<times> db) option" where
  "processMessage cfg enc w d msg =
     (let payload = \<lparr>payload_to = To msg, payload_content = Content msg\<rparr>
      in case SendMessageWithRetry cfg (send w) payload of
           None \<Rightarrow> None
         | Some (response, Some err) \<Rightarrow>
             Some (None,
               snd (UpdateMessageStatus (update_now w) (update_fault w) d (ID msg)
                      MessageStatusFailed None None None))
         | Some (None, None) \<Rightarrow> Some (Some ''nil pointer dereference'', d)
         | Some (Some response, None) \<Rightarrow>
             Some (None,
               snd (UpdateMessageStatus (update_now w) (update_fault w) d (ID msg)
                      MessageStatusSent (Some (sent_now w))
                      (Some (ResponseMessageID response)) (Some (enc response)))))"

text \<open>
  The surroundings of one tick: the clock and the driver's answer at each iteration
  of the claiming loop, the surroundings of the worker of each message, and the
  schedule of the goroutines: \<open>finishes_before t i msg\<close> says that the worker of
  \<open>msg\<close>, if it was started and is still running, comes to its end (its one statement
  against the table, or its panic) before the claim of iteration \<open>i\<close> is issued.
\<close>

record tick_env =
  claim_now :: "int \<Rightarrow> time"
  claim_fault :: "int \<Rightarrow> string option"
  worker :: "Message \<Rightarrow> worker_env"
  finishes_before :: "int \<Rightarrow> Message \<Rightarrow> bool"

text \<open>
  Workers coming to their end, one after the other, each running
  \<^verbatim>\<open>processMessage\<close> on its message. A panic ends the process, and with it every
  other goroutine; a worker that never returns writes nothing.
\<close>

fun run_workers ::
  "Cfg \<Rightarrow> (Response \<Rightarrow> string) \<Rightarrow> (Message \<Rightarrow> worker_env) \<Rightarrow> Message list \<Rightarrow> db \<Rightarrow>
   string option \<times> db" where
  "run_workers cfg enc w [] d = (None, d)"
| "run_workers cfg enc w (msg # msgs) d =
     (case processMessage cfg enc (w msg) d msg of
        None \<Rightarrow> run_workers cfg enc w msgs d
      | Some (Some p, d1) \<Rightarrow> (Some p, d1)
      | Some (None, d1) \<Rightarrow> run_workers cfg enc w msgs d1)"

text \<open>
  What a tick leaves: the panic, if the process panicked during it, the table, the
  number of \<^verbatim>\<open>ClaimNextMessage\<close> calls made, and the messages handed to workers
  (\<^verbatim>\<open>sentCount\<close> is their number).
\<close>

record tick_result =
  tick_panic :: "string option"
  tick_db :: db
  tick_claims :: nat
  tick_started :: "Message list"

text \<open>
  After the loop: the workers still running come to their end (\<^verbatim>\<open>wg.Wait\<close>; when
  the context is done first the tick returns without waiting, and they end all the
  same).
\<close>

definition after_loop ::
  "Cfg \<Rightarrow> (Response \<Rightarrow> string) \<Rightarrow> tick_env \<Rightarrow> Message list \<Rightarrow> nat \<Rightarrow> Message list \<Rightarrow> db \<Rightarrow>
   tick_result" where
  "after_loop cfg enc t ws c st d =
     (case run_workers cfg enc (worker t) ws d of
        (p, d1) \<Rightarrow> \<lparr>tick_panic = p, tick_db = d1, tick_claims = c, tick_started = st\<rparr>)"

text \<open>
  The claiming loop of \<^verbatim>\<open>processBatch\<close>, from iteration \<open>i\<close> on, with the workers
  \<open>ws\<close> running, \<open>c\<close> claims made and the messages \<open>st\<close> handed over so far. Before
  the claim of an iteration the workers that are due come to their end. Then: an
  error goes to the next iteration, nil leaves the loop, a message starts a worker
  of its own (the semaphore has room for all of them) and goes to the next
  iteration.
\<close>

function claim_loop ::
  "Cfg \<Rightarrow> (Response \<Rightarrow> string) \<Rightarrow> tick_env \<Rightarrow> int \<Rightarrow> int \<Rightarrow> Message list \<Rightarrow> nat \<Rightarrow>
   Message list \<Rightarrow> db \<Rightarrow> tick_result" where
  "claim_loop cfg enc t batchSize i ws c st d =
     (if i < batchSize then
        (case run_workers cfg enc (worker t) (filter (finishes_before t i) ws) d of
           (Some p, d0) \<Rightarrow>
             \<lparr>tick_panic = Some p, tick_db = d0, tick_claims = c, tick_started = st\<rparr>
         | (None, d0) \<Rightarrow>
             (case ClaimNextMessage (claim_now t i) (claim_fault t i) d0 of
                (Inl err, d1) \<Rightarrow>
                  claim_loop cfg enc t batchSize (i + 1)
                    (filter (\<lambda>m. \<not> finishes_before t i m) ws) (Suc c) st d1
              | (Inr None, d1) \<Rightarrow>
                  after_loop cfg enc t (filter (\<lambda>m. \<not> finishes_before t i m) ws) (Suc c) st d1
              | (Inr (Some msg), d1) \<Rightarrow>
                  claim_loop cfg enc t batchSize (i + 1)
                    (filter (\<lambda>m. \<not> finishes_before t i m) ws @ [msg]) (Suc c) (st @ [msg]) d1))
      else after_loop cfg enc t ws c st d)"
  by pat_completeness auto
termination
  by (relation "measure (\<lambda>(cfg, enc, t, batchSize, i, ws, c, st, d). nat (batchSize - i))") auto

declare claim_loop.simps [simp del]

text \<open>
  \<^verbatim>\<open>processBatch\<close>. Making a channel of negative capacity panics, before anything
  is claimed.
\<close>

definition processBatch ::
  "Cfg \<Rightarrow> (Response \<Rightarrow> string) \<Rightarrow> tick_env \<Rightarrow> db \<Rightarrow> tick_result" where
  "processBatch cfg enc t d =
     (if BatchSize (MessagingCfg cfg) < 0 then
        \<lparr>tick_panic = Some ''makechan: size out of range'', tick_db = d, tick_claims = 0,
         tick_started = []\<rparr>
      else claim_loop cfg enc t (BatchSize (MessagingCfg cfg)) 0 [] 0 [] d)"

section \<open>The system as a whole\<close>

text \<open>The struct literal of \<^verbatim>\<open>seedMessages\<close>, the one caller of \<^verbatim>\<open>CreateMessage\<close>.\<close>

definition new_message :: "string \<Rightarrow> string \<Rightarrow> Message" where
  "new_message to content =
     \<lparr>ID = 0, To = to, Content = content, Status = [], SentAt = None, MessageID = None,
      WebhookResponse = None, CreatedAt = 0, UpdatedAt = 0\<rparr>"

definition enqueue ::
  "time \<Rightarrow> time \<Rightarrow> string option \<Rightarrow> string \<Rightarrow> string \<Rightarrow> db \<Rightarrow> error option \<times> db" where
  "enqueue now1 now2 fault to content d = CreateMessage now1 now2 fault (new_message to content) d"

text \<open>
  The table together with the messages that were claimed and whose worker has not
  yet written. Each step is one statement against the table, so the steps of
  producers, dispatchers and workers interleave in any order.
\<close>

record system =
  store :: db
  in_flight :: "Message list"

inductive reachable :: "Cfg \<Rightarrow> (Response \<Rightarrow> string) \<Rightarrow> system \<Rightarrow> bool"
  for cfg :: Cfg and enc :: "Response \<Rightarrow> string" where
  initial: "reachable cfg enc \<lparr>store = empty_db, in_flight = []\<rparr>"
| enqueued:
    "reachable cfg enc s \<Longrightarrow> enqueue now1 now2 fault to content (store s) = (e, d) \<Longrightarrow>
     reachable cfg enc (s\<lparr>store := d\<rparr>)"
| claimed:
    "reachable cfg enc s \<Longrightarrow> ClaimNextMessage now fault (store s) = (r, d) \<Longrightarrow>
     reachable cfg enc
       \<lparr>store = d,
        in_flight = (case r of Inr (Some msg) \<Rightarrow> [msg] | _ \<Rightarrow> []) @ in_flight s\<rparr>"
| finalized:
    "reachable cfg enc s \<Longrightarrow> msg \<in> set (in_flight s) \<Longrightarrow>
     processMessage cfg enc w (store s) msg = Some (p, d) \<Longrightarrow>
     reachable cfg enc \<lparr>store = d, in_flight = remove1 msg (in_flight s)\<rparr>"

section \<open>Notions the properties are stated with\<close>

definition is_pending :: "Message \<Rightarrow> bool" where
  "is_pending m \<longleftrightarrow> Status m = MessageStatusPending"

definition pending_count :: "db \<Rightarrow> nat" where
  "pending_count d = length (filter is_pending (rows d))"

text \<open>
  What the primary key and its sequence guarantee of a table that only
  \<^verbatim>\<open>CreateMessage\<close> on fresh structs has filled: the identities are distinct,
  positive and below the next value of the sequence.
\<close>

definition wf_db :: "db \<Rightarrow> bool" where
  "wf_db d \<longleftrightarrow>
     0 < next_id d \<and> distinct (map ID (rows d)) \<and>
     list_all (\<lambda>m. 0 < ID m \<and> ID m < next_id d) (rows d)"

text \<open>
  The number of rows that are pending in \<open>d\<close> and no longer pending in \<open>d'\<close>, row by
  row (no operation of the program removes or reorders rows).
\<close>

definition left_pending :: "db \<Rightarrow> db \<Rightarrow> nat" where
  "left_pending d d' =
     length (filter (\<lambda>(m, m'). is_pending m \<and> \<not> is_pending m') (zip (rows d) (rows d')))"

text \<open>The invariant of a row: a known status, and the three delivery columns set exactly on sent rows.\<close>

definition row_ok :: "Message \<Rightarrow> bool" where
  "row_ok m \<longleftrightarrow>
     Status m \<in> {MessageStatusPending, MessageStatusSending, MessageStatusSent,
                  MessageStatusFailed} \<and>
     (SentAt m \<noteq> None \<longleftrightarrow> Status m = MessageStatusSent) \<and>
     (MessageID m \<noteq> None \<longleftrightarrow> Status m = MessageStatusSent) \<and>
     (WebhookResponse m \<noteq> None \<longleftrightarrow> Status m = MessageStatusSent)"

text \<open>A receiver that fails an attempt: no reply, or a reply outside \<open>[200, 300)\<close>.\<close>

definition receiver_fails :: "http_result \<Rightarrow> bool" where
  "receiver_fails res \<longleftrightarrow>
     (case res of
        CreateRequestFailed _ \<Rightarrow> False
      | DoFailed _ \<Rightarrow> True
      | Replied r \<Rightarrow> reply_status r < 200 \<or> reply_status r \<ge> 300)"

text \<open>
  Row by row, the identity is kept and no row becomes pending: how every statement
  of a tick relates the table before to the table after.
\<close>

definition rows_advance :: "Message list \<Rightarrow> Message list \<Rightarrow> bool" where
  "rows_advance rs rs' \<longleftrightarrow>
     list_all2 (\<lambda>m m'. ID m' = ID m \<and> (is_pending m' \<longrightarrow> is_pending m)) rs rs'"

text \<open>The rows of the messages \<open>ws\<close>, as found by identity, are not pending.\<close>

definition settled :: "Message list \<Rightarrow> db \<Rightarrow> bool" where
  "settled ws d \<longleftrightarrow> (\<forall>msg\<in>set ws. \<forall>m\<in>set (rows d). ID m = ID msg \<longrightarrow> \<not> is_pending m)"

text \<open>The number of iterations \<open>i, ..., n - 1\<close> of the claiming loop in which the driver answers.\<close>

definition answered :: "tick_env \<Rightarrow> int \<Rightarrow> int \<Rightarrow> nat" where
  "answered t i n = length (filter (\<lambda>j. claim_fault t j = None) [i..n - 1])"

text \<open>
  The invariant of the system: every row is well formed, the identities of the
  rows are distinct, and the messages in flight are distinct rows of the table
  that are in the sending state.
\<close>

definition sys_inv :: "system \<Rightarrow> bool" where
  "sys_inv s \<longleftrightarrow>
     list_all row_ok (rows (store s)) \<and>
     distinct (map ID (rows (store s))) \<and>
     distinct (map ID (in_flight s)) \<and>
     list_all (\<lambda>msg. ID msg \<in> set (map ID (rows (store s))) \<and>
                 list_all (\<lambda>m. ID m = ID msg \<longrightarrow> Status m = MessageStatusSending)
                   (rows (store s)))
       (in_flight s)"

section \<open>Concrete surroundings\<close>

text \<open>The configuration after \<^verbatim>\<open>Cfg.setDefaults\<close> (durations in nanoseconds).\<close>

definition default_cfg :: Cfg where
  "default_cfg =
     \<lparr>AppName = ''sendpulse'', ServerAddress = '':8080'', ServerMode = ''dev'',
      DatabaseDSN = [],
      MessagingCfg = \<lparr>Interval = 120000000000, BatchSize = 2, MaxRetries = 3,
                      RetryDelay = 2000000000, Enabled = False\<rparr>,
      WebhookURL = []\<rparr>"

definition with_max_retries :: "int \<Rightarrow> Cfg \<Rightarrow> Cfg" where
  "with_max_retries n cfg = cfg\<lparr>MessagingCfg := (MessagingCfg cfg)\<lparr>MaxRetries := n\<rparr>\<rparr>"

definition with_batch_size :: "int \<Rightarrow> Cfg \<Rightarrow> Cfg" where
  "with_batch_size n cfg = cfg\<lparr>MessagingCfg := (MessagingCfg cfg)\<lparr>BatchSize := n\<rparr>\<rparr>"

text \<open>
  The receiver of \<^verbatim>\<open>TestClient_SendMessageWithRetry_MaxRetries\<close>: status 500 and an
  empty body on every attempt, under a context that is never done.
\<close>

definition always_500 :: send_env where
  "always_500 =
     \<lparr>post = (\<lambda>i p. Replied \<lparr>reply_status = 500, decoded_message = [],
                               decoded_messageId = [], decode_error = True\<rparr>),
      clock = (\<lambda>i. 1000 + int i),
      ctx_done = (\<lambda>i. False),
      ctx_err = ''context canceled''\<rparr>"

text \<open>A receiver that accepts every message with status 200.\<close>

definition always_200 :: send_env where
  "always_200 =
     \<lparr>post = (\<lambda>i p. Replied \<lparr>reply_status = 200, decoded_message = ''ok'',
                               decoded_messageId = ''x'', decode_error = False\<rparr>),
      clock = (\<lambda>i. 1000 + int i),
      ctx_done = (\<lambda>i. False),
      ctx_err = ''context canceled''\<rparr>"

definition quiet_worker :: "send_env \<Rightarrow> worker_env" where
  "quiet_worker e = \<lparr>send = e, sent_now = 2000, update_now = 2001, update_fault = None\<rparr>"

definition quiet_tick :: "send_env \<Rightarrow> tick_env" where
  "quiet_tick e =
     \<lparr>claim_now = (\<lambda>i. 500 + i), claim_fault = (\<lambda>i. None), worker = (\<lambda>m. quiet_worker e),
      finishes_before = (\<lambda>i m. False)\<rparr>"

text \<open>A tick whose first claim meets a driver error.\<close>

definition faulty_tick :: "send_env \<Rightarrow> tick_env" where
  "faulty_tick e =
     (quiet_tick e)\<lparr>claim_fault := (\<lambda>i. if i = 0 then Some ''connection reset'' else None)\<rparr>"

text \<open>A tick in which every worker comes to its end before the next claim.\<close>

definition eager_tick :: "send_env \<Rightarrow> tick_env" where
  "eager_tick e = (quiet_tick e)\<lparr>finishes_before := (\<lambda>i m. True)\<rparr>"

text \<open>An encoder standing for \<^verbatim>\<open>json.Marshal\<close> in concrete runs.\<close>

definition sample_enc :: "Response \<Rightarrow> string" where
  "sample_enc r = ''{\"message_id\":\"'' @ ResponseMessageID r @ ''\"}''"

definition sample_payload :: MessagePayload where
  "sample_payload = \<lparr>payload_to = ''+905551111111'', payload_content = ''Test message''\<rparr>"

text \<open>A table of three rows, pending, created at times 30, 10 and 20.\<close>

definition three_pending :: db where
  "three_pending =
     \<lparr>rows =
        [(new_message ''+905551111111'' ''a'')
           \<lparr>ID := 1, Status := MessageStatusPending, CreatedAt := 30, UpdatedAt := 30\<rparr>,
         (new_message ''+905552222222'' ''b'')
           \<lparr>ID := 2, Status := MessageStatusPending, CreatedAt := 10, UpdatedAt := 10\<rparr>,
         (new_message ''+905553333333'' ''c'')
           \<lparr>ID := 3, Status := MessageStatusPending, CreatedAt := 20, UpdatedAt := 20\<rparr>],
      next_id = 4\<rparr>"

section \<open>The webhook client: single sends and retries\<close>

lemma SendMessage_fails:
  "receiver_fails res \<Longrightarrow> \<exists>e. snd (SendMessage now res) = Some e"
  by (cases res) (auto simp: receiver_fails_def SendMessage_def Let_def)

lemma requests_made_fails: "receiver_fails res \<Longrightarrow> requests_made res = 1"
  by (cases res) (auto simp: receiver_fails_def requests_made_def)

lemma SendMessage_nil_error: "SendMessage now res = (r, None) \<Longrightarrow> r \<noteq> None"
  by (cases res) (auto simp: SendMessage_def Let_def split: if_splits)

lemma retry_loop_past_end:
  "maxRetries < attempt \<Longrightarrow>
   retry_loop maxRetries env payload attempt step lastResponse lastErr n =
     Some (lastResponse, lastErr, n)"
  by (simp add: retry_loop.simps)

lemma retry_loop_failed_attempt:
  assumes "attempt \<le> maxRetries" and "attempt < max_int"
    and "receiver_fails (post env step payload)" and "\<not> ctx_done env step"
  shows "\<exists>r e. SendMessage (clock env step) (post env step payload) = (r, Some e) \<and>
           retry_loop maxRetries env payload attempt step lastResponse lastErr n =
           retry_loop maxRetries env payload (attempt + 1) (Suc step) r (Some e) (Suc n)"
proof -
  let ?res = "post env step payload"
  obtain r e where sm: "SendMessage (clock env step) ?res = (r, Some e)"
    using SendMessage_fails [OF assms(3), of "clock env step"]
    by (cases "SendMessage (clock env step) ?res") auto
  have one: "requests_made ?res = 1" by (rule requests_made_fails [OF assms(3)])
  have inc: "int_inc attempt = attempt + 1" using assms(2) by (simp add: int_inc_def)
  have "retry_loop maxRetries env payload attempt step lastResponse lastErr n =
          retry_loop maxRetries env payload (attempt + 1) (Suc step) r (Some e) (Suc n)"
    using assms(1,4) sm one inc by (subst retry_loop.simps) simp
  with sm show ?thesis by blast
qed

lemma retry_loop_exhausted:
  assumes "k = nat (maxRetries - attempt)" and "attempt \<le> maxRetries" and "maxRetries < max_int"
    and "\<forall>i. step \<le> i \<and> i \<le> step + k \<longrightarrow> receiver_fails (post env i payload)"
    and "\<forall>i. step \<le> i \<and> i \<le> step + k \<longrightarrow> \<not> ctx_done env i"
  shows "retry_loop maxRetries env payload attempt step lastResponse lastErr n =
           Some (fst (SendMessage (clock env (step + k)) (post env (step + k) payload)),
                 snd (SendMessage (clock env (step + k)) (post env (step + k) payload)),
                 n + Suc k)"
  using assms
proof (induction k arbitrary: attempt step lastResponse lastErr n)
  case 0
  then have last: "attempt = maxRetries" by simp
  from retry_loop_failed_attempt [of attempt maxRetries env step payload lastResponse lastErr n]
  obtain r e where sm: "SendMessage (clock env step) (post env step payload) = (r, Some e)"
    and step: "retry_loop maxRetries env payload attempt step lastResponse lastErr n =
           retry_loop maxRetries env payload (attempt + 1) (Suc step) r (Some e) (Suc n)"
    using "0.prems" by auto
  have "retry_loop maxRetries env payload (attempt + 1) (Suc step) r (Some e) (Suc n) =
          Some (r, Some e, Suc n)"
    using last by (simp add: retry_loop_past_end)
  with step sm show ?case by simp
next
  case (Suc k)
  from retry_loop_failed_attempt [of attempt maxRetries env step payload lastResponse lastErr n]
  obtain r e where
    step: "retry_loop maxRetries env payload attempt step lastResponse lastErr n =
           retry_loop maxRetries env payload (attempt + 1) (Suc step) r (Some e) (Suc n)"
    using Suc.prems by auto
  have "retry_loop maxRetries env payload (attempt + 1) (Suc step) r (Some e) (Suc n) =
           Some (fst (SendMessage (clock env (Suc step + k)) (post env (Suc step + k) payload)),
                 snd (SendMessage (clock env (Suc step + k)) (post env (Suc step + k) payload)),
                 Suc n + Suc k)"
    by (rule Suc.IH) (use Suc.prems in auto)
  with step show ?case by simp
qed

text \<open>A call that makes an attempt, or starts from an error, does not return two nils.\<close>

lemma retry_loop_not_nil_nil:
  assumes "retry_loop maxRetries env payload attempt step lastResponse lastErr n = Some y"
  shows "attempt \<le> maxRetries \<or> lastErr \<noteq> None \<longrightarrow> fst y \<noteq> None \<or> fst (snd y) \<noteq> None"
proof (rule retry_loop.raw_induct
    [where P = "\<lambda>maxRetries env payload attempt step lastResponse lastErr n y.
       attempt \<le> maxRetries \<or> lastErr \<noteq> None \<longrightarrow> fst y \<noteq> None \<or> fst (snd y) \<noteq> None",
     OF _ assms], goal_cases)
  case (1 f maxRetries env payload attempt step lastResponse lastErr n y)
  obtain r e where sm: "SendMessage (clock env step) (post env step payload) = (r, e)"
    by (cases "SendMessage (clock env step) (post env step payload)")
  show ?case
  proof (cases e)
    case None
    with sm have "r \<noteq> None" by (auto dest: SendMessage_nil_error)
    with 1(2) sm None show ?thesis by (auto split: if_splits)
  next
    case (Some err)
    show ?thesis
    proof (cases "attempt \<le> maxRetries \<and> \<not> (attempt > 0 \<and> ctx_done env step)")
      case True
      with 1(2) sm Some
      have "f maxRetries env payload (int_inc attempt) (Suc step) r (Some err)
              (n + requests_made (post env step payload)) = Some y"
        by simp
      from 1(1) [OF this] show ?thesis by simp
    next
      case False
      with 1(2) show ?thesis by (auto split: if_splits)
    qed
  qed
qed

text \<open>
  Under the largest bound the counter wraps and the loop has no end of its own:
  against a receiver that always fails, under a context that is never done, the
  call does not return.
\<close>

lemma retry_loop_wraps:
  assumes "retry_loop maxRetries env payload attempt step lastResponse lastErr n = Some y"
  shows "\<not> (maxRetries = max_int \<and> attempt \<le> max_int \<and>
            (\<forall>i. receiver_fails (post env i payload)) \<and> (\<forall>i. \<not> ctx_done env i))"
proof (rule retry_loop.raw_induct
    [where P = "\<lambda>maxRetries env payload attempt step lastResponse lastErr n y.
       \<not> (maxRetries = max_int \<and> attempt \<le> max_int \<and>
            (\<forall>i. receiver_fails (post env i payload)) \<and> (\<forall>i. \<not> ctx_done env i))",
     OF _ assms], goal_cases)
  case (1 f maxRetries env payload attempt step lastResponse lastErr n y)
  show ?case
  proof
    assume a: "maxRetries = max_int \<and> attempt \<le> max_int \<and>
            (\<forall>i. receiver_fails (post env i payload)) \<and> (\<forall>i. \<not> ctx_done env i)"
    then obtain r e where sm: "SendMessage (clock env step) (post env step payload) = (r, Some e)"
      using SendMessage_fails [of "post env step payload" "clock env step"]
      by (cases "SendMessage (clock env step) (post env step payload)") auto
    have le: "int_inc attempt \<le> max_int"
      using a by (simp add: int_inc_def max_int_def min_int_def)
    from 1(2) a sm
    have "f maxRetries env payload (int_inc attempt) (Suc step) r (Some e)
            (n + requests_made (post env step payload)) = Some y"
      by simp
    from 1(1) [OF this] a le show False by simp
  qed
qed

text \<open>
  Claim C9. A single send whose reply carries a status code outside \<open>[200, 300)\<close>
  returns an error that names that code and, with it, the response it built: the
  status code, the decoded message (or the fixed text when decoding failed), the
  decoded message id and the time of the call.
\<close>

theorem SendMessage_status_outside_2xx:
  assumes "reply_status r < 200 \<or> reply_status r \<ge> 300"
  shows "snd (SendMessage now (Replied r)) = Some (ErrWebhookStatus (reply_status r)) \<and>
         (\<exists>resp. fst (SendMessage now (Replied r)) = Some resp \<and>
            StatusCode resp = reply_status r \<and>
            ResponseMessage resp =
              (if decode_error r then ''failed to decode response'' else decoded_message r) \<and>
            ResponseMessageID resp = decoded_messageId r \<and>
            Timestamp resp = now)"
  using assms by (auto simp: SendMessage_def Let_def)

theorem SendMessage_status_outside_2xx_witness:
  "snd (SendMessage 7 (Replied \<lparr>reply_status = 500, decoded_message = [],
          decoded_messageId = [], decode_error = True\<rparr>)) = Some (ErrWebhookStatus 500) \<and>
   fst (SendMessage 7 (Replied \<lparr>reply_status = 500, decoded_message = [],
          decoded_messageId = [], decode_error = True\<rparr>)) =
     Some \<lparr>StatusCode = 500, ResponseMessage = ''failed to decode response'',
           ResponseMessageID = [], Timestamp = 7\<rparr>"
  using SendMessage_status_outside_2xx
    [of "\<lparr>reply_status = 500, decoded_message = [], decoded_messageId = [],
         decode_error = True\<rparr>" 7]
  by auto

text \<open>
  Claim C4, as amended. With a configured \<open>max_retries\<close> that is not negative and
  below the largest \<^verbatim>\<open>int\<close>, a context that is never done and a receiver that fails
  every attempt, \<^verbatim>\<open>SendMessageWithRetry\<close> returns, having made exactly
  \<open>max_retries + 1\<close> HTTP requests, and it returns what the last attempt returned:
  its response and its error.
\<close>

theorem send_with_retry_exhausts:
  assumes "0 \<le> MaxRetries (MessagingCfg cfg)" and "MaxRetries (MessagingCfg cfg) < max_int"
    and "\<forall>i. i \<le> nat (MaxRetries (MessagingCfg cfg)) \<longrightarrow> receiver_fails (post env i payload)"
    and "\<forall>i. i \<le> nat (MaxRetries (MessagingCfg cfg)) \<longrightarrow> \<not> ctx_done env i"
  shows "map_option int (http_attempts cfg env payload) = Some (MaxRetries (MessagingCfg cfg) + 1) \<and>
         SendMessageWithRetry cfg env payload =
           Some (SendMessage (clock env (nat (MaxRetries (MessagingCfg cfg))))
                   (post env (nat (MaxRetries (MessagingCfg cfg))) payload)) \<and>
         snd (SendMessage (clock env (nat (MaxRetries (MessagingCfg cfg))))
                (post env (nat (MaxRetries (MessagingCfg cfg))) payload)) \<noteq> None"
proof -
  let ?m = "MaxRetries (MessagingCfg cfg)"
  let ?k = "nat ?m"
  have loop: "retry_loop ?m env payload 0 0 None None 0 =
           Some (fst (SendMessage (clock env (0 + ?k)) (post env (0 + ?k) payload)),
                 snd (SendMessage (clock env (0 + ?k)) (post env (0 + ?k) payload)),
                 0 + Suc ?k)"
    by (rule retry_loop_exhausted) (use assms in auto)
  have "receiver_fails (post env ?k payload)" using assms(3) by simp
  from SendMessage_fails [OF this, of "clock env ?k"] loop assms(1)
  show ?thesis
    by (auto simp: http_attempts_def SendMessageWithRetry_def)
qed

text \<open>
  The run of \<^verbatim>\<open>TestClient_SendMessageWithRetry_MaxRetries\<close>: two retries, three
  requests, and the response and error of the third.
\<close>

theorem send_with_retry_exhausts_witness:
  "http_attempts (with_max_retries 2 default_cfg) always_500 sample_payload = Some 3 \<and>
   SendMessageWithRetry (with_max_retries 2 default_cfg) always_500 sample_payload =
     Some (Some \<lparr>StatusCode = 500, ResponseMessage = ''failed to decode response'',
                 ResponseMessageID = [], Timestamp = 1002\<rparr>,
           Some (ErrWebhookStatus 500))"
proof -
  have m: "MaxRetries (MessagingCfg (with_max_retries 2 default_cfg)) = 2"
    by (simp add: with_max_retries_def default_cfg_def)
  have f: "\<forall>i. i \<le> nat (MaxRetries (MessagingCfg (with_max_retries 2 default_cfg))) \<longrightarrow>
             receiver_fails (post always_500 i sample_payload)"
    by (simp add: always_500_def receiver_fails_def)
  have c: "\<forall>i. i \<le> nat (MaxRetries (MessagingCfg (with_max_retries 2 default_cfg))) \<longrightarrow>
             \<not> ctx_done always_500 i"
    by (simp add: always_500_def)
  from send_with_retry_exhausts [OF _ _ f c] m
  have "map_option int (http_attempts (with_max_retries 2 default_cfg) always_500
          sample_payload) = Some 3"
    and "SendMessageWithRetry (with_max_retries 2 default_cfg) always_500 sample_payload =
           Some (SendMessage (clock always_500 2) (post always_500 2 sample_payload))"
    by (simp_all add: max_int_def)
  then show ?thesis
    by (auto simp: always_500_def SendMessage_def)
qed

text \<open>
  Outside these bounds the statement fails. Configured with \<open>-2\<close>, against the same
  receiver, the call makes no request, which is not \<open>max_retries + 1\<close>, and neither
  a response nor an error comes back. Configured with the largest \<^verbatim>\<open>int\<close> the
  counter wraps, the retries are never exhausted and the call does not return.
\<close>

theorem send_with_retry_out_of_bounds_counterexample:
  "http_attempts (with_max_retries (- 2) default_cfg) always_500 sample_payload = Some 0 \<and>
   map_option int (http_attempts (with_max_retries (- 2) default_cfg) always_500 sample_payload)
     \<noteq> Some (MaxRetries (MessagingCfg (with_max_retries (- 2) default_cfg)) + 1) \<and>
   SendMessageWithRetry (with_max_retries (- 2) default_cfg) always_500 sample_payload =
     Some (None, None) \<and>
   SendMessageWithRetry (with_max_retries max_int default_cfg) always_500 sample_payload = None \<and>
   http_attempts (with_max_retries max_int default_cfg) always_500 sample_payload = None"
proof -
  have neg: "retry_loop (- 2) always_500 sample_payload 0 0 None None 0 = Some (None, None, 0)"
    by (simp add: retry_loop_past_end)
  have "retry_loop max_int always_500 sample_payload 0 0 None None 0 \<noteq> Some y" for y
    using retry_loop_wraps [of max_int always_500 sample_payload 0 0 None None 0 y]
    by (auto simp: always_500_def receiver_fails_def max_int_def)
  then have top: "retry_loop max_int always_500 sample_payload 0 0 None None 0 = None"
    by (cases "retry_loop max_int always_500 sample_payload 0 0 None None 0") auto
  show ?thesis
    using neg top
    by (simp add: http_attempts_def SendMessageWithRetry_def with_max_retries_def
        default_cfg_def)
qed

text \<open>
  Claim C10. Under a negative \<open>max_retries\<close>, \<^verbatim>\<open>SendMessageWithRetry\<close> makes no
  HTTP request and returns a nil response with a nil error, and \<^verbatim>\<open>processMessage\<close>
  then panics on the nil response, on any message, leaving the table as it was.
  \<^verbatim>\<open>Cfg.validate\<close> does not look at \<open>max_retries\<close>, so such a configuration loads.
\<close>

theorem negative_max_retries_nil_dereference:
  assumes "MaxRetries (MessagingCfg cfg) < 0"
  shows "http_attempts cfg env payload = Some 0 \<and>
         SendMessageWithRetry cfg env payload = Some (None, None) \<and>
         processMessage cfg enc w d msg = Some (Some ''nil pointer dereference'', d) \<and>
         validate cfg = validate (with_max_retries 3 cfg)"
  using assms
  by (simp add: http_attempts_def SendMessageWithRetry_def processMessage_def
      retry_loop_past_end validate_def with_max_retries_def)

theorem negative_max_retries_nil_dereference_witness:
  "MaxRetries (MessagingCfg (with_max_retries (- 1) default_cfg)) < 0 \<and>
   http_attempts (with_max_retries (- 1) default_cfg) always_200 sample_payload = Some 0 \<and>
   SendMessageWithRetry (with_max_retries (- 1) default_cfg) always_200 sample_payload =
     Some (None, None) \<and>
   processMessage (with_max_retries (- 1) default_cfg) sample_enc (quiet_worker always_200)
       three_pending (hd (rows three_pending)) =
     Some (Some ''nil pointer dereference'', three_pending)"
  using negative_max_retries_nil_dereference
    [of "with_max_retries (- 1) default_cfg" always_200 sample_payload sample_enc
        "quiet_worker always_200" three_pending "hd (rows three_pending)"]
  by (simp add: with_max_retries_def default_cfg_def)

text \<open>
  With a \<open>max_retries\<close> that is not negative a worker does not panic: it fails the
  message, delivers it, or does not return.
\<close>

lemma SendMessageWithRetry_not_nil_nil:
  assumes "0 \<le> MaxRetries (MessagingCfg cfg)"
  shows "SendMessageWithRetry cfg env payload \<noteq> Some (None, None)"
proof
  assume "SendMessageWithRetry cfg env payload = Some (None, None)"
  then obtain n where
    "retry_loop (MaxRetries (MessagingCfg cfg)) env payload 0 0 None None 0 = Some (None, None, n)"
    by (auto simp: SendMessageWithRetry_def)
  from retry_loop_not_nil_nil [OF this] assms show False by simp
qed

lemma processMessage_no_panic:
  assumes "0 \<le> MaxRetries (MessagingCfg cfg)"
    and "processMessage cfg enc w d msg = Some (p, d')"
  shows "p = None"
proof -
  let ?r = "SendMessageWithRetry cfg (send w)
              \<lparr>payload_to = To msg, payload_content = Content msg\<rparr>"
  have "?r \<noteq> Some (None, None)" by (rule SendMessageWithRetry_not_nil_nil [OF assms(1)])
  with assms(2) show ?thesis
    by (cases ?r) (auto simp: processMessage_def split: option.splits)
qed

section \<open>The scheduler's two states\<close>

lemma sched_running_open: "sched_reachable s \<Longrightarrow> running s \<Longrightarrow> stopCh s = OpenCh"
  by (induction rule: sched_reachable.induct)
     (auto simp: NewScheduler_def Start_def Stop_def split: if_splits stop_channel.splits)

lemma already_running_sub:
  "sublist ''already running'' ''Messaging service is already running''"
  unfolding sublist_def
  by (rule exI [of _ "''Messaging service is ''"], rule exI [of _ "[]"]) simp

lemma not_running_sub:
  "sublist ''not running'' ''Messaging service is not running''"
  unfolding sublist_def
  by (rule exI [of _ "''Messaging service is ''"], rule exI [of _ "[]"]) simp

text \<open>
  Claim C5. In every state the scheduler can be in: \<^verbatim>\<open>Start\<close> when stopped answers
  \<open>success\<close> and sets \<open>running\<close>; \<^verbatim>\<open>Start\<close> when running answers \<open>error\<close>, with a
  message containing \<open>already running\<close>, and changes nothing; \<^verbatim>\<open>Stop\<close> when running
  answers \<open>success\<close> and clears \<open>running\<close>; \<^verbatim>\<open>Stop\<close> when stopped answers \<open>error\<close>,
  with a message containing \<open>not running\<close>, and changes nothing. In all four cases
  the error value returned is nil (and \<^verbatim>\<open>Stop\<close> does not panic).
\<close>

theorem scheduler_two_states:
  assumes "sched_reachable s"
  shows "(\<not> running s \<longrightarrow>
            status (fst (fst (Start now s))) = ''success'' \<and>
            snd (fst (Start now s)) = None \<and>
            running (snd (Start now s))) \<and>
         (running s \<longrightarrow>
            status (fst (fst (Start now s))) = ''error'' \<and>
            sublist ''already running'' (message (fst (fst (Start now s)))) \<and>
            snd (fst (Start now s)) = None \<and>
            snd (Start now s) = s) \<and>
         (running s \<longrightarrow>
            (\<exists>resp s'. Stop now s = Returns ((resp, None), s') \<and>
               status resp = ''success'' \<and> \<not> running s')) \<and>
         (\<not> running s \<longrightarrow>
            (\<exists>resp. Stop now s = Returns ((resp, None), s) \<and>
               status resp = ''error'' \<and> sublist ''not running'' (message resp)))"
  using sched_running_open [OF assms]
  by (auto simp: Start_def Stop_def already_running_sub not_running_sub)

text \<open>The four calls of \<^verbatim>\<open>TestScheduler_StartStop\<close>, from a new scheduler.\<close>

theorem scheduler_two_states_witness:
  "sched_reachable NewScheduler \<and> \<not> running NewScheduler \<and>
   status (fst (fst (Start 1 NewScheduler))) = ''success'' \<and>
   running (snd (Start 1 NewScheduler)) \<and>
   sched_reachable (snd (Start 1 NewScheduler)) \<and>
   status (fst (fst (Start 2 (snd (Start 1 NewScheduler))))) = ''error'' \<and>
   snd (Start 2 (snd (Start 1 NewScheduler))) = snd (Start 1 NewScheduler) \<and>
   Stop 3 (snd (Start 1 NewScheduler)) =
     Returns ((\<lparr>status = ''success'', timestamp = 3,
                 message = ''Messaging service stopped successfully''\<rparr>, None),
              \<lparr>running = False, stopCh = ClosedCh, loops = 1\<rparr>) \<and>
   Stop 4 \<lparr>running = False, stopCh = ClosedCh, loops = 1\<rparr> =
     Returns ((\<lparr>status = ''error'', timestamp = 4,
                 message = ''Messaging service is not running''\<rparr>, None),
              \<lparr>running = False, stopCh = ClosedCh, loops = 1\<rparr>)"
proof -
  have r0: "sched_reachable NewScheduler" by (rule sched_reachable.new)
  have r1: "sched_reachable (snd (Start 1 NewScheduler))"
    by (rule sched_reachable.start [OF r0])
  from scheduler_two_states [OF r0, of 1] scheduler_two_states [OF r1, of 2] r0 r1
  show ?thesis
    by (simp add: NewScheduler_def Start_def Stop_def)
qed

section \<open>The queue: enqueueing\<close>

lemma character_count_le: "character_count s \<le> length s"
  by (simp add: character_count_def)

lemma wf_db_fresh: "wf_db d \<Longrightarrow> next_id d \<notin> set (map ID (rows d))"
  by (auto simp: wf_db_def list_all_iff)

lemma wf_empty_db: "wf_db empty_db"
  by (simp add: wf_db_def empty_db_def)

text \<open>
  What \<^verbatim>\<open>CreateMessage\<close> does with the ceiling: it compares Go's \<^verbatim>\<open>len\<close> of the
  content, its length in bytes, with 160. On a well-formed table, when the driver
  answers, a fresh message (\<open>ID\<close> unset) whose address passes the phone check and
  whose content is at most 160 bytes long is inserted as a pending row with the
  next identity. Every content longer than 160 bytes, hence every content of more
  than 160 characters, fails with \<^verbatim>\<open>ErrMessageTooLong\<close> and leaves the table as it
  was.
\<close>

lemma CreateMessage_length_bound:
  "(int (length (Content m)) \<le> 160 \<and> ID m = 0 \<and> check_phone_format m \<and> wf_db d \<longrightarrow>
      CreateMessage now1 now2 None m d =
        (None,
         \<lparr>rows = rows d @
            [m\<lparr>ID := next_id d, CreatedAt := now1, UpdatedAt := now2,
               Status := MessageStatusPending\<rparr>],
          next_id = next_id d + 1\<rparr>)) \<and>
   (160 < length (Content m) \<longrightarrow>
      CreateMessage now1 now2 fault m d = (Some ErrMessageTooLong, d)) \<and>
   (160 < character_count (Content m) \<longrightarrow>
      CreateMessage now1 now2 fault m d = (Some ErrMessageTooLong, d))"
proof (intro conjI impI)
  assume a: "int (length (Content m)) \<le> 160 \<and> ID m = 0 \<and> check_phone_format m \<and> wf_db d"
  then have "character_count (Content m) \<le> 1000"
    using character_count_le [of "Content m"] by simp
  moreover have "next_id d \<notin> set (map ID (rows d))" using a wf_db_fresh by blast
  ultimately show "CreateMessage now1 now2 None m d =
        (None,
         \<lparr>rows = rows d @
            [m\<lparr>ID := next_id d, CreatedAt := now1, UpdatedAt := now2,
               Status := MessageStatusPending\<rparr>],
          next_id = next_id d + 1\<rparr>)"
    using a
    by (simp add: CreateMessage_def MaxMessageLength_def insert_row_def
        check_content_length_def check_phone_format_def)
next
  assume "160 < length (Content m)"
  then show "CreateMessage now1 now2 fault m d = (Some ErrMessageTooLong, d)"
    by (simp add: CreateMessage_def MaxMessageLength_def)
next
  assume "160 < character_count (Content m)"
  then have "160 < length (Content m)"
    using character_count_le [of "Content m"] by simp
  then show "CreateMessage now1 now2 fault m d = (Some ErrMessageTooLong, d)"
    by (simp add: CreateMessage_def MaxMessageLength_def)
qed

text \<open>160 and 161 letters \<open>a\<close> to a valid address, on the empty table.\<close>

lemma enqueue_ascii_boundary:
  "length (replicate 160 CHR ''a'') = 160 \<and>
   enqueue 5 6 None ''+905551111111'' (replicate 160 CHR ''a'') empty_db =
     (None,
      \<lparr>rows = [\<lparr>ID = 1, To = ''+905551111111'', Content = replicate 160 CHR ''a'',
                 Status = ''pending'', SentAt = None, MessageID = None,
                 WebhookResponse = None, CreatedAt = 5, UpdatedAt = 6\<rparr>],
       next_id = 2\<rparr>) \<and>
   enqueue 5 6 None ''+905551111111'' (replicate 161 CHR ''a'') empty_db =
     (Some ErrMessageTooLong, empty_db)"
  using CreateMessage_length_bound
    [of "new_message ''+905551111111'' (replicate 160 CHR ''a'')" empty_db 5 6 None]
    CreateMessage_length_bound
    [of "new_message ''+905551111111'' (replicate 161 CHR ''a'')" empty_db 5 6 None]
    wf_empty_db
  by (simp add: enqueue_def new_message_def check_phone_format_def is_digit_def
      empty_db_def MessageStatusPending_def)

text \<open>
  Claim C8 says that a content of exactly 160 characters is enqueued as a pending
  row and that only a longer one fails with \<^verbatim>\<open>ErrMessageTooLong\<close>. The code departs
  from it on characters of more than one byte, because it applies the ceiling to the
  number of bytes where the table's own check on the same column counts characters:
  160 times the letter s-cedilla (two bytes each in UTF-8), sent to a valid address
  on the empty table, is a content of 160 characters that passes both checks of the
  table and is refused as too long, and nothing is inserted.
\<close>

theorem CreateMessage_counts_bytes:
  "character_count (concat (replicate 160 [CHR 0xC5, CHR 0x9F])) = 160 \<and>
   length (concat (replicate 160 [CHR 0xC5, CHR 0x9F])) = 320 \<and>
   check_content_length
     (new_message ''+905551111111'' (concat (replicate 160 [CHR 0xC5, CHR 0x9F]))) \<and>
   check_phone_format
     (new_message ''+905551111111'' (concat (replicate 160 [CHR 0xC5, CHR 0x9F]))) \<and>
   enqueue 5 6 None ''+905551111111'' (concat (replicate 160 [CHR 0xC5, CHR 0x9F])) empty_db =
     (Some ErrMessageTooLong, empty_db)"
  by code_simp

section \<open>The queue: claiming\<close>

lemma sort_key_head_least:
  assumes "sort_key f xs = y # ys"
  shows "y \<in> set xs \<and> (\<forall>x\<in>set xs. f y \<le> f x)"
proof -
  have s: "set (y # ys) = set xs" using assms set_sort [of f xs] by simp
  have "sorted (map f (y # ys))" using assms sorted_sort_key [of f xs] by simp
  then have "\<forall>x\<in>set ys. f y \<le> f x" by simp
  with s show ?thesis by auto
qed

lemma ID_claim_row [simp]: "ID (claim_row now sel m) = ID m"
  by (simp add: claim_row_def)

lemma claim_rows_returning:
  "distinct (map ID rs) \<Longrightarrow> m0 \<in> set rs \<Longrightarrow>
   filter (\<lambda>m. ID m = ID m0) (map (claim_row now (ID m0)) rs) = [claim_row now (ID m0) m0]"
proof (induction rs)
  case Nil
  then show ?case by simp
next
  case (Cons a rs)
  show ?case
  proof (cases "a = m0")
    case True
    then have "\<forall>m\<in>set rs. ID m \<noteq> ID m0" using Cons.prems(1) by (force simp: image_iff)
    then have "filter (\<lambda>m. ID m = ID m0) (map (claim_row now (ID m0)) rs) = []"
      by (auto simp: filter_empty_conv)
    with True show ?thesis by simp
  next
    case False
    then have "m0 \<in> set rs" using Cons.prems(2) by simp
    moreover from this have "ID a \<noteq> ID m0" using Cons.prems(1) by auto
    ultimately show ?thesis using Cons by simp
  qed
qed

lemma claim_rows_one_row:
  assumes "distinct (map ID rs)" and "m0 \<in> set rs"
  shows "map (claim_row now (ID m0)) rs =
         map (\<lambda>m. if m = m0 then m0\<lparr>Status := MessageStatusSending, UpdatedAt := now\<rparr> else m) rs"
proof (rule map_cong [OF refl])
  fix m assume "m \<in> set rs"
  then have "ID m = ID m0 \<longleftrightarrow> m = m0"
    using assms by (auto simp: distinct_map dest: inj_onD)
  then show "claim_row now (ID m0) m =
      (if m = m0 then m0\<lparr>Status := MessageStatusSending, UpdatedAt := now\<rparr> else m)"
    by (auto simp: claim_row_def)
qed

lemma is_pending_fun: "(\<lambda>m. Status m = MessageStatusPending) = is_pending"
  by (rule ext) (simp add: is_pending_def)

lemma oldest_pending_None:
  "oldest_pending rs = None \<longleftrightarrow> filter is_pending rs = []"
proof -
  have "filter (\<lambda>m. Status m = MessageStatusPending) rs = filter is_pending rs"
    by (simp only: is_pending_fun)
  moreover have "sort_key CreatedAt (filter is_pending rs) = [] \<longleftrightarrow> filter is_pending rs = []"
    by (metis length_sort length_0_conv)
  ultimately show ?thesis
    by (cases "sort_key CreatedAt (filter is_pending rs)") (auto simp: oldest_pending_def)
qed

lemma oldest_pending_Some:
  assumes "oldest_pending rs = Some sel"
  shows "\<exists>m0\<in>set rs. ID m0 = sel \<and> is_pending m0 \<and>
           (\<forall>m\<in>set rs. is_pending m \<longrightarrow> CreatedAt m0 \<le> CreatedAt m)"
proof -
  have eq: "filter (\<lambda>m. Status m = MessageStatusPending) rs = filter is_pending rs"
    by (simp only: is_pending_fun)
  from assms obtain m0 ms where
    s: "sort_key CreatedAt (filter is_pending rs) = m0 # ms" and i: "ID m0 = sel"
    by (auto simp: oldest_pending_def eq split: list.splits)
  from sort_key_head_least [OF s] i show ?thesis by auto
qed

text \<open>What a claim does on a well-formed table with a pending row, when the driver answers.\<close>

lemma ClaimNextMessage_some:
  assumes wf: "wf_db d" and some: "filter is_pending (rows d) \<noteq> []"
  shows "\<exists>m0\<in>set (rows d). is_pending m0 \<and>
           (\<forall>m\<in>set (rows d). is_pending m \<longrightarrow> CreatedAt m0 \<le> CreatedAt m) \<and>
           ClaimNextMessage now None d =
             (Inr (Some (m0\<lparr>Status := MessageStatusSending, UpdatedAt := now\<rparr>)),
              d\<lparr>rows := map (\<lambda>m. if m = m0
                                  then m0\<lparr>Status := MessageStatusSending, UpdatedAt := now\<rparr>
                                  else m) (rows d)\<rparr>)"
proof -
  from some obtain sel where sel: "oldest_pending (rows d) = Some sel"
    using oldest_pending_None [of "rows d"] by (cases "oldest_pending (rows d)") auto
  from oldest_pending_Some [OF sel] obtain m0 where
    m0: "m0 \<in> set (rows d)" "ID m0 = sel" "is_pending m0"
      "\<forall>m\<in>set (rows d). is_pending m \<longrightarrow> CreatedAt m0 \<le> CreatedAt m"
    by blast
  have dist: "distinct (map ID (rows d))" and nz: "ID m0 \<noteq> 0"
    using wf m0(1) by (auto simp: wf_db_def list_all_iff)
  have ret: "filter (\<lambda>m. ID m = sel) (map (claim_row now sel) (rows d)) =
               [m0\<lparr>Status := MessageStatusSending, UpdatedAt := now\<rparr>]"
    using claim_rows_returning [OF dist m0(1), of now] m0(2) by (simp add: claim_row_def)
  have one: "map (claim_row now sel) (rows d) =
      map (\<lambda>m. if m = m0 then m0\<lparr>Status := MessageStatusSending, UpdatedAt := now\<rparr> else m)
        (rows d)"
    using claim_rows_one_row [OF dist m0(1), of now] m0(2) by simp
  have "ClaimNextMessage now None d =
             (Inr (Some (m0\<lparr>Status := MessageStatusSending, UpdatedAt := now\<rparr>)),
              d\<lparr>rows := map (\<lambda>m. if m = m0
                                  then m0\<lparr>Status := MessageStatusSending, UpdatedAt := now\<rparr>
                                  else m) (rows d)\<rparr>)"
    unfolding ClaimNextMessage_def using sel ret nz by (simp add: one)
  with m0 show ?thesis by blast
qed

lemma ClaimNextMessage_none:
  "filter is_pending (rows d) = [] \<Longrightarrow> ClaimNextMessage now None d = (Inr None, d)"
  using oldest_pending_None [of "rows d"] by (simp add: ClaimNextMessage_def)

text \<open>
  Claim C2. On every table the primary key allows, when the driver answers: with
  no pending row \<^verbatim>\<open>ClaimNextMessage\<close> returns nil and changes nothing; otherwise
  there is a pending row \<open>m0\<close> whose \<open>created_at\<close> is least among the pending rows,
  the call returns \<open>m0\<close> with status \<open>sending\<close> and \<open>updated_at\<close> set to the time of
  the call, and the table afterwards differs from the table before in that row
  only.
\<close>

theorem claim_next_oldest_pending:
  assumes "wf_db d"
  shows "(pending_count d = 0 \<longrightarrow> ClaimNextMessage now None d = (Inr None, d)) \<and>
         (0 < pending_count d \<longrightarrow>
            (\<exists>m0\<in>set (rows d). is_pending m0 \<and>
               (\<forall>m\<in>set (rows d). is_pending m \<longrightarrow> CreatedAt m0 \<le> CreatedAt m) \<and>
               ClaimNextMessage now None d =
                 (Inr (Some (m0\<lparr>Status := MessageStatusSending, UpdatedAt := now\<rparr>)),
                  d\<lparr>rows := map (\<lambda>m. if m = m0
                                      then m0\<lparr>Status := MessageStatusSending, UpdatedAt := now\<rparr>
                                      else m) (rows d)\<rparr>)))"
  using ClaimNextMessage_some [OF assms, of now] ClaimNextMessage_none [of d now]
  by (auto simp: pending_count_def)

lemma wf_three_pending: "wf_db three_pending"
  by (simp add: wf_db_def three_pending_def new_message_def)

text \<open>
  On the table of three pending rows the row created at time 10 is claimed; on the
  empty table nothing is.
\<close>

theorem claim_next_oldest_pending_witness:
  "wf_db three_pending \<and> pending_count three_pending = 3 \<and>
   fst (ClaimNextMessage 77 None three_pending) =
     Inr (Some \<lparr>ID = 2, To = ''+905552222222'', Content = ''b'', Status = ''sending'',
                SentAt = None, MessageID = None, WebhookResponse = None,
                CreatedAt = 10, UpdatedAt = 77\<rparr>) \<and>
   map Status (rows (snd (ClaimNextMessage 77 None three_pending))) =
     [''pending'', ''sending'', ''pending''] \<and>
   wf_db empty_db \<and> pending_count empty_db = 0 \<and>
   ClaimNextMessage 77 None empty_db = (Inr None, empty_db)"
proof -
  have w0: "wf_db empty_db" by (simp add: wf_db_def empty_db_def)
  have p3: "pending_count three_pending = 3"
    by (simp add: pending_count_def three_pending_def new_message_def is_pending_def)
  have p0: "pending_count empty_db = 0" by (simp add: pending_count_def empty_db_def)
  have run: "ClaimNextMessage 77 None three_pending =
     (Inr (Some \<lparr>ID = 2, To = ''+905552222222'', Content = ''b'', Status = ''sending'',
                SentAt = None, MessageID = None, WebhookResponse = None,
                CreatedAt = 10, UpdatedAt = 77\<rparr>),
      three_pending\<lparr>rows := map (claim_row 77 2) (rows three_pending)\<rparr>)"
    by (simp add: ClaimNextMessage_def oldest_pending_def three_pending_def new_message_def
        claim_row_def MessageStatusPending_def MessageStatusSending_def)
  from claim_next_oldest_pending [OF wf_three_pending, of 77]
    claim_next_oldest_pending [OF w0, of 77] wf_three_pending w0 p3 p0 run
  show ?thesis
    by (simp add: three_pending_def new_message_def claim_row_def MessageStatusPending_def
        MessageStatusSending_def)
qed

section \<open>The queue: finalizing\<close>

text \<open>
  Claim C7. When the driver fails, \<^verbatim>\<open>UpdateMessageStatus\<close> writes nothing. When it
  answers, the call returns no error, and row by row: a row of another identity is
  unchanged; a row of the given identity keeps \<open>id\<close>, \<open>to\<close>, \<open>content\<close> and
  \<open>created_at\<close>, gets the given status and the time of the call as \<open>updated_at\<close>,
  and each of \<open>sent_at\<close>, \<open>message_id\<close> and \<open>webhook_response\<close> is the given value
  when one is given and the old value otherwise. In particular the call with status
  \<open>failed\<close> and three nils changes only \<open>status\<close> and \<open>updated_at\<close>, and that is the
  one call \<^verbatim>\<open>processMessage\<close> makes when sending returns an error.
\<close>

theorem finalize_writes_only_given_columns:
  "UpdateMessageStatus now (Some f) d i st sentAt mid resp = (Some (StoreError f), d) \<and>
   fst (UpdateMessageStatus now None d i st sentAt mid resp) = None \<and>
   next_id (snd (UpdateMessageStatus now None d i st sentAt mid resp)) = next_id d \<and>
   list_all2
     (\<lambda>m m'. if ID m = i then
                ID m' = ID m \<and> To m' = To m \<and> Content m' = Content m \<and>
                CreatedAt m' = CreatedAt m \<and>
                Status m' = st \<and> UpdatedAt m' = now \<and>
                SentAt m' = (case sentAt of None \<Rightarrow> SentAt m | Some t \<Rightarrow> Some t) \<and>
                MessageID m' = (case mid of None \<Rightarrow> MessageID m | Some s \<Rightarrow> Some s) \<and>
                WebhookResponse m' =
                  (case resp of None \<Rightarrow> WebhookResponse m | Some s \<Rightarrow> Some s)
              else m' = m)
     (rows d) (rows (snd (UpdateMessageStatus now None d i st sentAt mid resp))) \<and>
   list_all2
     (\<lambda>m m'. m' = (if ID m = i then m\<lparr>Status := MessageStatusFailed, UpdatedAt := now\<rparr> else m))
     (rows d)
     (rows (snd (UpdateMessageStatus now None d i MessageStatusFailed None None None))) \<and>
   (SendMessageWithRetry cfg (send w)
        \<lparr>payload_to = To msg, payload_content = Content msg\<rparr> = Some (response, Some err) \<longrightarrow>
      processMessage cfg enc w d msg =
        Some (None,
          snd (UpdateMessageStatus (update_now w) (update_fault w) d (ID msg)
                 MessageStatusFailed None None None)))"
proof (intro conjI impI)
  assume "SendMessageWithRetry cfg (send w)
        \<lparr>payload_to = To msg, payload_content = Content msg\<rparr> = Some (response, Some err)"
  then show "processMessage cfg enc w d msg =
        Some (None,
          snd (UpdateMessageStatus (update_now w) (update_fault w) d (ID msg)
                 MessageStatusFailed None None None))"
    by (simp add: processMessage_def split: option.splits)
qed (auto simp: UpdateMessageStatus_def update_row_def list_all2_map2
      intro!: list_all2_refl split: option.splits)

text \<open>
  Row 2 of the three-row table, finalized as sent without a response, and failed
  by a worker whose receiver answers 500.
\<close>

theorem finalize_writes_only_given_columns_witness:
  "rows (snd (UpdateMessageStatus 99 None three_pending 2 MessageStatusSent (Some 98)
           (Some ''x'') None)) =
     [\<lparr>ID = 1, To = ''+905551111111'', Content = ''a'', Status = ''pending'',
       SentAt = None, MessageID = None, WebhookResponse = None,
       CreatedAt = 30, UpdatedAt = 30\<rparr>,
      \<lparr>ID = 2, To = ''+905552222222'', Content = ''b'', Status = ''sent'',
       SentAt = Some 98, MessageID = Some ''x'', WebhookResponse = None,
       CreatedAt = 10, UpdatedAt = 99\<rparr>,
      \<lparr>ID = 3, To = ''+905553333333'', Content = ''c'', Status = ''pending'',
       SentAt = None, MessageID = None, WebhookResponse = None,
       CreatedAt = 20, UpdatedAt = 20\<rparr>] \<and>
   SendMessageWithRetry (with_max_retries 0 default_cfg) always_500
       \<lparr>payload_to = ''+905552222222'', payload_content = ''b''\<rparr> =
     Some (Some \<lparr>StatusCode = 500, ResponseMessage = ''failed to decode response'',
                 ResponseMessageID = [], Timestamp = 1000\<rparr>,
           Some (ErrWebhookStatus 500)) \<and>
   map_option (\<lambda>r. (fst r, map Status (rows (snd r))))
     (processMessage (with_max_retries 0 default_cfg) sample_enc
        (quiet_worker always_500) three_pending (rows three_pending ! 1)) =
     Some (None, [''pending'', ''failed'', ''pending''])"
proof -
  have sw: "SendMessageWithRetry (with_max_retries 0 default_cfg) always_500
       \<lparr>payload_to = ''+905552222222'', payload_content = ''b''\<rparr> =
     Some (Some \<lparr>StatusCode = 500, ResponseMessage = ''failed to decode response'',
                 ResponseMessageID = [], Timestamp = 1000\<rparr>,
           Some (ErrWebhookStatus 500))"
    by (simp add: SendMessageWithRetry_def with_max_retries_def default_cfg_def
        retry_loop.simps always_500_def SendMessage_def int_inc_def max_int_def)
  have m: "rows three_pending ! 1 =
      \<lparr>ID = 2, To = ''+905552222222'', Content = ''b'', Status = ''pending'',
       SentAt = None, MessageID = None, WebhookResponse = None,
       CreatedAt = 10, UpdatedAt = 10\<rparr>"
    by (simp add: three_pending_def new_message_def MessageStatusPending_def)
  from finalize_writes_only_given_columns
    [of 99 "''e''" three_pending 2 MessageStatusSent "Some 98" "Some ''x''" None
        "with_max_retries 0 default_cfg" "quiet_worker always_500" "rows three_pending ! 1"
        "Some \<lparr>StatusCode = 500, ResponseMessage = ''failed to decode response'',
                ResponseMessageID = [], Timestamp = 1000\<rparr>"
        "ErrWebhookStatus 500" sample_enc]
    sw m
  show ?thesis
    by (simp add: quiet_worker_def UpdateMessageStatus_def update_row_def three_pending_def
        new_message_def MessageStatusPending_def MessageStatusSent_def MessageStatusFailed_def)
qed

section \<open>The rows of every reachable table\<close>

lemma insert_row_rows:
  assumes "insert_row fault m d = (e, d')"
  shows "rows d' = rows d \<or>
         (\<exists>i. i \<notin> set (map ID (rows d)) \<and> rows d' = rows d @ [m\<lparr>ID := i\<rparr>])"
  using assms
  by (auto simp: insert_row_def Let_def split: option.splits if_splits)

lemma enqueue_rows:
  assumes "enqueue now1 now2 fault to content d = (e, d')"
  shows "rows d' = rows d \<or>
         (\<exists>m. rows d' = rows d @ [m] \<and> ID m \<notin> set (map ID (rows d)) \<and>
              Status m = MessageStatusPending \<and> SentAt m = None \<and> MessageID m = None \<and>
              WebhookResponse m = None)"
proof (cases "int (length content) > MaxMessageLength")
  case True
  then show ?thesis using assms by (simp add: enqueue_def CreateMessage_def new_message_def)
next
  case False
  then have "insert_row fault
      ((new_message to content)\<lparr>CreatedAt := now1, UpdatedAt := now2,
         Status := MessageStatusPending\<rparr>) d = (e, d')"
    using assms by (simp add: enqueue_def CreateMessage_def new_message_def)
  from insert_row_rows [OF this] show ?thesis
    by (auto simp: new_message_def)
qed

lemma claim_rows:
  assumes "ClaimNextMessage now fault d = (r, d')"
  shows "(rows d' = rows d \<and> (\<forall>msg. r \<noteq> Inr (Some msg))) \<or>
         (\<exists>m0\<in>set (rows d). is_pending m0 \<and>
            rows d' = map (claim_row now (ID m0)) (rows d) \<and>
            (\<forall>msg. r = Inr (Some msg) \<longrightarrow> ID msg = ID m0))"
proof (cases fault)
  case (Some f)
  then show ?thesis using assms by (auto simp: ClaimNextMessage_def)
next
  case None
  show ?thesis
  proof (cases "oldest_pending (rows d)")
    case n: None
    then show ?thesis using assms None by (auto simp: ClaimNextMessage_def)
  next
    case (Some sel)
    from oldest_pending_Some [OF Some] obtain m0 where
      m0: "m0 \<in> set (rows d)" "ID m0 = sel" "is_pending m0" by blast
    have r: "\<forall>msg. r = Inr (Some msg) \<longrightarrow> ID msg = sel"
    proof (intro allI impI)
      fix msg assume "r = Inr (Some msg)"
      then have "\<exists>ms. filter (\<lambda>m. ID m = sel) (map (claim_row now sel) (rows d)) = msg # ms"
        using assms None Some
        by (auto simp: ClaimNextMessage_def Let_def split: list.splits if_splits)
      then obtain ms where
        "filter (\<lambda>m. ID m = sel) (map (claim_row now sel) (rows d)) = msg # ms" ..
      then have "msg \<in> set (filter (\<lambda>m. ID m = sel) (map (claim_row now sel) (rows d)))"
        by simp
      then show "ID msg = sel" by simp
    qed
    have "rows d' = map (claim_row now sel) (rows d)"
      using assms None Some
      by (auto simp: ClaimNextMessage_def Let_def split: list.splits if_splits)
    with m0 r show ?thesis by blast
  qed
qed

lemma process_rows:
  assumes "processMessage cfg enc w d msg = Some (p, d')"
  shows "rows d' = rows d \<or>
         rows d' = map (\<lambda>m. if ID m = ID msg
                              then update_row (update_now w) MessageStatusFailed None None None m
                              else m) (rows d) \<or>
         (\<exists>t a b. rows d' =
            map (\<lambda>m. if ID m = ID msg
                      then update_row (update_now w) MessageStatusSent (Some t) (Some a) (Some b) m
                      else m) (rows d))"
proof -
  have "d' = d \<or>
        d' = snd (UpdateMessageStatus (update_now w) (update_fault w) d (ID msg)
                    MessageStatusFailed None None None) \<or>
        (\<exists>a. d' = snd (UpdateMessageStatus (update_now w) (update_fault w) d (ID msg)
                    MessageStatusSent (Some (sent_now w)) (Some (ResponseMessageID a))
                    (Some (enc a))))"
    using assms
    by (cases "SendMessageWithRetry cfg (send w)
           \<lparr>payload_to = To msg, payload_content = Content msg\<rparr>")
       (auto simp: processMessage_def split: option.splits)
  then consider "d' = d"
    | "d' = snd (UpdateMessageStatus (update_now w) (update_fault w) d (ID msg)
                    MessageStatusFailed None None None)"
    | a where "d' = snd (UpdateMessageStatus (update_now w) (update_fault w) d (ID msg)
                    MessageStatusSent (Some (sent_now w)) (Some (ResponseMessageID a))
                    (Some (enc a)))"
    by blast
  then show ?thesis
  proof cases
    case 1
    then show ?thesis by simp
  next
    case 2
    then show ?thesis
      by (cases "update_fault w") (simp_all add: UpdateMessageStatus_def)
  next
    case 3
    show ?thesis
    proof (cases "update_fault w")
      case None
      with 3 have "rows d' =
            map (\<lambda>m. if ID m = ID msg
                      then update_row (update_now w) MessageStatusSent (Some (sent_now w))
                             (Some (ResponseMessageID a)) (Some (enc a)) m
                      else m) (rows d)"
        by (simp add: UpdateMessageStatus_def)
      then show ?thesis by blast
    next
      case (Some f)
      with 3 show ?thesis by (simp add: UpdateMessageStatus_def)
    qed
  qed
qed


lemma status_names_differ:
  "MessageStatusPending \<noteq> MessageStatusSending" "MessageStatusPending \<noteq> MessageStatusSent"
  "MessageStatusPending \<noteq> MessageStatusFailed" "MessageStatusSending \<noteq> MessageStatusSent"
  "MessageStatusSending \<noteq> MessageStatusFailed" "MessageStatusSent \<noteq> MessageStatusFailed"
  "MessageStatusSending \<noteq> MessageStatusPending" "MessageStatusSent \<noteq> MessageStatusPending"
  "MessageStatusFailed \<noteq> MessageStatusPending" "MessageStatusSent \<noteq> MessageStatusSending"
  "MessageStatusFailed \<noteq> MessageStatusSending" "MessageStatusFailed \<noteq> MessageStatusSent"
  by (simp_all add: MessageStatusPending_def MessageStatusSending_def MessageStatusSent_def
      MessageStatusFailed_def)

lemma sys_inv_rows_only:
  "rows d = rows (store s) \<Longrightarrow> sys_inv s \<Longrightarrow> sys_inv (s\<lparr>store := d\<rparr>)"
  by (simp add: sys_inv_def)

lemma sys_inv_enqueue:
  assumes inv: "sys_inv s" and enq: "enqueue now1 now2 fault to content (store s) = (e, d)"
  shows "sys_inv (s\<lparr>store := d\<rparr>)"
proof -
  from enqueue_rows [OF enq] consider "rows d = rows (store s)"
    | m where "rows d = rows (store s) @ [m]" "ID m \<notin> set (map ID (rows (store s)))"
        "Status m = MessageStatusPending" "SentAt m = None" "MessageID m = None"
        "WebhookResponse m = None"
    by blast
  then show ?thesis
  proof cases
    case 1
    then show ?thesis using inv by (rule sys_inv_rows_only)
  next
    case 2
    have ok: "row_ok m" using 2 by (simp add: row_ok_def status_names_differ)
    show ?thesis
      using inv 2(1,2,3) ok
      by (auto simp: sys_inv_def list_all_iff)
  qed
qed

lemma row_ok_claim_row:
  "row_ok m \<Longrightarrow> is_pending m \<Longrightarrow> row_ok (claim_row now sel m)"
  by (auto simp: row_ok_def is_pending_def claim_row_def status_names_differ)

lemma sys_inv_claim:
  assumes inv: "sys_inv s" and cl: "ClaimNextMessage now fault (store s) = (r, d)"
  shows "sys_inv \<lparr>store = d,
           in_flight = (case r of Inr (Some msg) \<Rightarrow> [msg] | _ \<Rightarrow> []) @ in_flight s\<rparr>"
proof -
  let ?rs = "rows (store s)"
  from claim_rows [OF cl] consider
      "rows d = ?rs" "\<forall>msg. r \<noteq> Inr (Some msg)"
    | m0 where "m0 \<in> set ?rs" "is_pending m0" "rows d = map (claim_row now (ID m0)) ?rs"
        "\<forall>msg. r = Inr (Some msg) \<longrightarrow> ID msg = ID m0"
    by blast
  then show ?thesis
  proof cases
    case 1
    then have "(case r of Inr (Some msg) \<Rightarrow> [msg] | _ \<Rightarrow> []) = []"
      by (auto split: sum.splits option.splits)
    with 1(1) inv show ?thesis by (simp add: sys_inv_def)
  next
    case 2
    have dist: "distinct (map ID ?rs)" and oks: "\<forall>m\<in>set ?rs. row_ok m"
      using inv by (auto simp: sys_inv_def list_all_iff)
    have only: "\<forall>m\<in>set ?rs. ID m = ID m0 \<longrightarrow> m = m0"
      using dist 2(1) by (auto simp: distinct_map dest: inj_onD)
    have rows_ok: "\<forall>m\<in>set ?rs. row_ok (claim_row now (ID m0) m)"
    proof
      fix m assume m: "m \<in> set ?rs"
      show "row_ok (claim_row now (ID m0) m)"
      proof (cases "ID m = ID m0")
        case True
        with only m have "m = m0" by blast
        with oks m 2(2) show ?thesis by (simp add: row_ok_claim_row)
      next
        case False
        with oks m show ?thesis by (simp add: claim_row_def)
      qed
    qed
    have ids: "map ID (rows d) = map ID ?rs" using 2(3) by simp
    have fl: "\<forall>msg\<in>set (in_flight s). ID msg \<in> set (map ID ?rs) \<and>
                (\<forall>m\<in>set ?rs. ID m = ID msg \<longrightarrow> Status m = MessageStatusSending)"
      and fd: "distinct (map ID (in_flight s))"
      using inv by (auto simp: sys_inv_def list_all_iff)
    have fresh: "ID m0 \<notin> set (map ID (in_flight s))"
    proof
      assume "ID m0 \<in> set (map ID (in_flight s))"
      then obtain msg where "msg \<in> set (in_flight s)" "ID msg = ID m0" by auto
      with fl 2(1) have "Status m0 = MessageStatusSending" by auto
      with 2(2) show False by (simp add: is_pending_def status_names_differ)
    qed
    have sending: "Status m' = MessageStatusSending"
      if "m' \<in> set (rows d)" "ID m' = i"
        "i = ID m0 \<or> (\<forall>m\<in>set ?rs. ID m = i \<longrightarrow> Status m = MessageStatusSending)"
      for m' i
    proof -
      from that(1) 2(3) obtain m where m: "m \<in> set ?rs" "m' = claim_row now (ID m0) m"
        by auto
      show ?thesis
      proof (cases "ID m = ID m0")
        case True
        then show ?thesis using m(2) by (simp add: claim_row_def)
      next
        case False
        then have "m' = m" using m(2) by (simp add: claim_row_def)
        with that(2,3) False m(1) show ?thesis by auto
      qed
    qed
    have fl': "ID msg \<in> set (map ID (rows d)) \<and>
                (\<forall>m\<in>set (rows d). ID m = ID msg \<longrightarrow> Status m = MessageStatusSending)"
      if "msg \<in> set (in_flight s)" for msg
    proof -
      from fl that have a: "ID msg \<in> set (map ID ?rs)"
        and b: "\<forall>m\<in>set ?rs. ID m = ID msg \<longrightarrow> Status m = MessageStatusSending"
        by blast+
      from a ids have "ID msg \<in> set (map ID (rows d))" by simp
      moreover have "\<forall>m\<in>set (rows d). ID m = ID msg \<longrightarrow> Status m = MessageStatusSending"
        using sending b by blast
      ultimately show ?thesis ..
    qed
    have new: "ID msg \<in> set (map ID (rows d)) \<and> ID msg \<notin> set (map ID (in_flight s)) \<and>
                 (\<forall>m\<in>set (rows d). ID m = ID msg \<longrightarrow> Status m = MessageStatusSending)"
      if "r = Inr (Some msg)" for msg
    proof -
      from that 2(4) have i: "ID msg = ID m0" by blast
      have "ID m0 \<in> set (map ID ?rs)" using 2(1) by simp
      with ids i have "ID msg \<in> set (map ID (rows d))" by simp
      moreover have "ID msg \<notin> set (map ID (in_flight s))" using fresh i by simp
      moreover have "\<forall>m\<in>set (rows d). ID m = ID msg \<longrightarrow> Status m = MessageStatusSending"
        using sending i by blast
      ultimately show ?thesis by blast
    qed
    have rows_ok': "\<forall>m\<in>set (rows d). row_ok m" using rows_ok 2(3) by auto
    have dist': "distinct (map ID (rows d))" using dist ids by simp
    show ?thesis
    proof (cases "\<exists>msg. r = Inr (Some msg)")
      case True
      then obtain msg where r: "r = Inr (Some msg)" ..
      from new [OF r] have n: "ID msg \<in> set (map ID (rows d))"
        "ID msg \<notin> set (map ID (in_flight s))"
        "\<forall>m\<in>set (rows d). ID m = ID msg \<longrightarrow> Status m = MessageStatusSending"
        by blast+
      have 1: "list_all row_ok (rows d)" using rows_ok' by (simp add: list_all_iff)
      have 2: "distinct (map ID (msg # in_flight s))" using fd n(2) by simp
      have 3: "list_all (\<lambda>msg. ID msg \<in> set (map ID (rows d)) \<and>
                 list_all (\<lambda>m. ID m = ID msg \<longrightarrow> Status m = MessageStatusSending) (rows d))
               (msg # in_flight s)"
        unfolding list_all_iff using fl' n(1,3) by (metis set_ConsD)
      show ?thesis
        unfolding sys_inv_def r using 1 dist' 2 3 by simp
    next
      case False
      then have e: "(case r of Inr (Some msg) \<Rightarrow> [msg] | _ \<Rightarrow> []) = []"
        by (auto split: sum.splits option.splits)
      have 1: "list_all row_ok (rows d)" using rows_ok' by (simp add: list_all_iff)
      have 3: "list_all (\<lambda>msg. ID msg \<in> set (map ID (rows d)) \<and>
                 list_all (\<lambda>m. ID m = ID msg \<longrightarrow> Status m = MessageStatusSending) (rows d))
               (in_flight s)"
        unfolding list_all_iff using fl' by blast
      show ?thesis
        unfolding sys_inv_def e using 1 dist' fd 3 by simp
    qed
  qed
qed


lemma remaining_in_flight:
  assumes "distinct (map ID xs)" and "msg \<in> set xs" and "msg' \<in> set (remove1 msg xs)"
  shows "msg' \<in> set xs \<and> ID msg' \<noteq> ID msg"
proof -
  have d: "distinct xs" and inj: "inj_on ID (set xs)" using assms(1) by (simp_all add: distinct_map)
  from assms(3) d have "msg' \<in> set xs" "msg' \<noteq> msg" by simp_all
  with inj assms(2) show ?thesis by (auto dest: inj_onD)
qed

lemma distinct_map_remove1:
  assumes "distinct (map f xs)"
  shows "distinct (map f (remove1 x xs))"
proof -
  have d: "distinct xs" and inj: "inj_on f (set xs)" using assms by (simp_all add: distinct_map)
  have "inj_on f (set (remove1 x xs))"
    by (rule inj_on_subset [OF inj set_remove1_subset])
  with d show ?thesis by (simp add: distinct_map)
qed

text \<open>A worker's write keeps the invariant when it maps sending rows to well-formed rows.\<close>

lemma sys_inv_write:
  assumes inv: "sys_inv s" and msg: "msg \<in> set (in_flight s)"
    and f_ok: "\<And>m. row_ok m \<Longrightarrow> Status m = MessageStatusSending \<Longrightarrow> row_ok (f m)"
    and f_id: "\<And>m. ID (f m) = ID m"
    and rows: "rows d = map (\<lambda>m. if ID m = ID msg then f m else m) (rows (store s))"
  shows "sys_inv \<lparr>store = d, in_flight = remove1 msg (in_flight s)\<rparr>"
proof -
  let ?rs = "rows (store s)"
  let ?g = "\<lambda>m. if ID m = ID msg then f m else m"
  have dist: "distinct (map ID ?rs)" and oks: "\<forall>m\<in>set ?rs. row_ok m"
    and fd: "distinct (map ID (in_flight s))"
    and fl: "\<forall>x\<in>set (in_flight s). ID x \<in> set (map ID ?rs) \<and>
                (\<forall>m\<in>set ?rs. ID m = ID x \<longrightarrow> Status m = MessageStatusSending)"
    using inv by (auto simp: sys_inv_def list_all_iff)
  have ids: "map ID (rows d) = map ID ?rs"
    unfolding rows by (induction ?rs) (simp_all add: f_id)
  have 1: "list_all row_ok (rows d)"
    unfolding list_all_iff rows
  proof
    fix m' assume "m' \<in> set (map ?g ?rs)"
    then obtain m where m: "m \<in> set ?rs" "m' = ?g m" by auto
    show "row_ok m'"
    proof (cases "ID m = ID msg")
      case True
      with fl msg m(1) have "Status m = MessageStatusSending" by blast
      with oks m True show ?thesis by (simp add: f_ok)
    next
      case False
      with oks m show ?thesis by simp
    qed
  qed
  have 2: "distinct (map ID (rows d))" using dist ids by simp
  have 3: "distinct (map ID (remove1 msg (in_flight s)))"
    using fd by (rule distinct_map_remove1)
  have 4: "list_all (\<lambda>x. ID x \<in> set (map ID (rows d)) \<and>
                 list_all (\<lambda>m. ID m = ID x \<longrightarrow> Status m = MessageStatusSending) (rows d))
               (remove1 msg (in_flight s))"
    unfolding list_all_iff
  proof (intro ballI conjI impI)
    fix x assume x: "x \<in> set (remove1 msg (in_flight s))"
    from remaining_in_flight [OF fd msg x] have xin: "x \<in> set (in_flight s)"
      and xid: "ID x \<noteq> ID msg" by blast+
    from fl xin ids show "ID x \<in> set (map ID (rows d))" by simp
    fix m' assume m': "m' \<in> set (rows d)" "ID m' = ID x"
    then obtain m where m: "m \<in> set ?rs" "m' = ?g m" unfolding rows by auto
    have "ID m = ID x" using m' m(2) by (simp add: f_id split: if_splits)
    with xid m(2) have "m' = m" by simp
    with fl xin m(1) \<open>ID m = ID x\<close> show "Status m' = MessageStatusSending" by blast
  qed
  show ?thesis unfolding sys_inv_def using 1 2 3 4 by simp
qed

lemma row_ok_failed:
  "row_ok m \<Longrightarrow> Status m = MessageStatusSending \<Longrightarrow>
   row_ok (update_row now MessageStatusFailed None None None m)"
  by (simp add: row_ok_def update_row_def status_names_differ)

lemma row_ok_sent:
  "row_ok (update_row now MessageStatusSent (Some t) (Some a) (Some b) m)"
  by (simp add: row_ok_def update_row_def)

lemma sys_inv_drop:
  assumes inv: "sys_inv s" and rows: "rows d = rows (store s)"
  shows "sys_inv \<lparr>store = d, in_flight = remove1 msg (in_flight s)\<rparr>"
proof -
  have fd: "distinct (map ID (in_flight s))" using inv by (simp add: sys_inv_def)
  have sub: "set (remove1 msg (in_flight s)) \<subseteq> set (in_flight s)"
    by (rule set_remove1_subset)
  show ?thesis
    unfolding sys_inv_def list_all_iff
    using inv rows distinct_map_remove1 [OF fd, of msg] sub
    by (auto simp: sys_inv_def list_all_iff)
qed

lemma sys_inv_finalize:
  assumes inv: "sys_inv s" and msg: "msg \<in> set (in_flight s)"
    and pm: "processMessage cfg enc w (store s) msg = Some (p, d)"
  shows "sys_inv \<lparr>store = d, in_flight = remove1 msg (in_flight s)\<rparr>"
proof -
  from process_rows [OF pm] consider "rows d = rows (store s)"
    | "rows d = map (\<lambda>m. if ID m = ID msg
                          then update_row (update_now w) MessageStatusFailed None None None m
                          else m) (rows (store s))"
    | t a b where "rows d =
            map (\<lambda>m. if ID m = ID msg
                      then update_row (update_now w) MessageStatusSent (Some t) (Some a) (Some b) m
                      else m) (rows (store s))"
    by blast
  then show ?thesis
  proof cases
    case 1
    with inv show ?thesis by (rule sys_inv_drop)
  next
    case 2
    show ?thesis
    proof (rule sys_inv_write [OF inv msg _ _ 2])
      fix m assume "row_ok m" "Status m = MessageStatusSending"
      then show "row_ok (update_row (update_now w) MessageStatusFailed None None None m)"
        by (rule row_ok_failed)
    next
      fix m show "ID (update_row (update_now w) MessageStatusFailed None None None m) = ID m"
        by (simp add: update_row_def)
    qed
  next
    case 3
    show ?thesis
    proof (rule sys_inv_write [OF inv msg _ _ 3])
      fix m
      show "row_ok (update_row (update_now w) MessageStatusSent (Some t) (Some a) (Some b) m)"
        by (rule row_ok_sent)
      show "ID (update_row (update_now w) MessageStatusSent (Some t) (Some a) (Some b) m) = ID m"
        by (simp add: update_row_def)
    qed
  qed
qed

lemma reachable_sys_inv: "reachable cfg enc s \<Longrightarrow> sys_inv s"
proof (induction rule: reachable.induct)
  case initial
  show ?case by (simp add: sys_inv_def empty_db_def)
next
  case (enqueued s now1 now2 fault to content e d)
  then show ?case by (blast intro: sys_inv_enqueue)
next
  case (claimed s now fault r d)
  then show ?case by (blast intro: sys_inv_claim)
next
  case (finalized s msg w p d)
  then show ?case by (blast intro: sys_inv_finalize)
qed

text \<open>
  The same states keep the table well formed, which is what the statements about
  \<^verbatim>\<open>CreateMessage\<close>, \<^verbatim>\<open>ClaimNextMessage\<close> and \<^verbatim>\<open>processBatch\<close> assume of it.
\<close>

lemma wf_db_ids:
  "wf_db d \<longleftrightarrow>
     0 < next_id d \<and> distinct (map ID (rows d)) \<and>
     (\<forall>i\<in>set (map ID (rows d)). 0 < i \<and> i < next_id d)"
  by (auto simp: wf_db_def list_all_iff)

lemma wf_db_same_ids:
  "wf_db d \<Longrightarrow> map ID (rows d') = map ID (rows d) \<Longrightarrow> next_id d' = next_id d \<Longrightarrow> wf_db d'"
  by (simp add: wf_db_ids)

lemma enqueue_wf_db:
  assumes "wf_db d" and "enqueue now1 now2 fault to content d = (e, d')"
  shows "wf_db d'"
proof -
  let ?m = "(new_message to content)\<lparr>CreatedAt := now1, UpdatedAt := now2,
         Status := MessageStatusPending\<rparr>"
  have "(rows d' = rows d \<and> next_id d \<le> next_id d') \<or>
        (rows d' = rows d @ [?m\<lparr>ID := next_id d\<rparr>] \<and> next_id d' = next_id d + 1)"
    using assms(2)
    by (auto simp: enqueue_def CreateMessage_def insert_row_def new_message_def
        split: option.splits if_splits)
  then show ?thesis
  proof
    assume "rows d' = rows d \<and> next_id d \<le> next_id d'"
    with assms(1) show ?thesis by (fastforce simp: wf_db_ids)
  next
    assume "rows d' = rows d @ [?m\<lparr>ID := next_id d\<rparr>] \<and> next_id d' = next_id d + 1"
    with assms(1) show ?thesis by (fastforce simp: wf_db_ids)
  qed
qed

lemma claim_wf_db:
  assumes "wf_db d" and "ClaimNextMessage now fault d = (r, d')"
  shows "wf_db d'"
proof -
  have n: "next_id d' = next_id d"
    using assms(2)
    by (auto simp: ClaimNextMessage_def Let_def split: option.splits list.splits if_splits)
  from claim_rows [OF assms(2)] have "map ID (rows d') = map ID (rows d)"
    by (auto simp: comp_def)
  with assms(1) n show ?thesis by (blast intro: wf_db_same_ids)
qed

lemma process_wf_db:
  assumes "wf_db d" and "processMessage cfg enc w d msg = Some (p, d')"
  shows "wf_db d'"
proof -
  have n: "next_id d' = next_id d"
    using assms(2)
    by (cases "SendMessageWithRetry cfg (send w)
           \<lparr>payload_to = To msg, payload_content = Content msg\<rparr>")
       (auto simp: processMessage_def UpdateMessageStatus_def split: option.splits)
  from process_rows [OF assms(2)] have "map ID (rows d') = map ID (rows d)"
    by (auto simp: comp_def update_row_def)
  with assms(1) n show ?thesis by (blast intro: wf_db_same_ids)
qed

lemma reachable_wf_db: "reachable cfg enc s \<Longrightarrow> wf_db (store s)"
proof (induction rule: reachable.induct)
  case initial
  show ?case by (simp add: wf_empty_db)
next
  case (enqueued s now1 now2 fault to content e d)
  then show ?case by (auto intro: enqueue_wf_db)
next
  case (claimed s now fault r d)
  then show ?case by (auto intro: claim_wf_db)
next
  case (finalized s msg w p d)
  then show ?case by (auto intro: process_wf_db)
qed

text \<open>
  Claim C6. In every state the system reaches by enqueueing, claiming and the
  workers' writes, in any interleaving, every row of the table has one of the four
  statuses, and each of \<open>sent_at\<close>, \<open>message_id\<close> and \<open>webhook_response\<close> is set
  exactly when the status is \<open>sent\<close>.
\<close>

theorem reachable_rows_well_formed:
  assumes "reachable cfg enc s" and "m \<in> set (rows (store s))"
  shows "Status m \<in> {MessageStatusPending, MessageStatusSending, MessageStatusSent,
                      MessageStatusFailed} \<and>
         (SentAt m \<noteq> None \<longleftrightarrow> Status m = MessageStatusSent) \<and>
         (MessageID m \<noteq> None \<longleftrightarrow> Status m = MessageStatusSent) \<and>
         (WebhookResponse m \<noteq> None \<longleftrightarrow> Status m = MessageStatusSent)"
proof -
  from reachable_sys_inv [OF assms(1)] assms(2) have "row_ok m"
    by (simp add: sys_inv_def list_all_iff)
  then show ?thesis by (simp add: row_ok_def)
qed


text \<open>
  A message enqueued, claimed and delivered: the state after the claim and the
  state after the worker's write are both reachable.
\<close>

theorem reachable_rows_well_formed_witness:
  "reachable default_cfg sample_enc
     \<lparr>store =
        \<lparr>rows = [\<lparr>ID = 1, To = ''+905551111111'', Content = ''hi'', Status = ''sent'',
                   SentAt = Some 2000, MessageID = Some ''x'',
                   WebhookResponse = Some ''{\"message_id\":\"x\"}'',
                   CreatedAt = 5, UpdatedAt = 2001\<rparr>],
         next_id = 2\<rparr>,
      in_flight = []\<rparr> \<and>
   reachable default_cfg sample_enc
     \<lparr>store =
        \<lparr>rows = [\<lparr>ID = 1, To = ''+905551111111'', Content = ''hi'', Status = ''sending'',
                   SentAt = None, MessageID = None, WebhookResponse = None,
                   CreatedAt = 5, UpdatedAt = 7\<rparr>],
         next_id = 2\<rparr>,
      in_flight = [\<lparr>ID = 1, To = ''+905551111111'', Content = ''hi'', Status = ''sending'',
                    SentAt = None, MessageID = None, WebhookResponse = None,
                    CreatedAt = 5, UpdatedAt = 7\<rparr>]\<rparr> \<and>
   MessageStatusSent = ''sent'' \<and> MessageStatusSending = ''sending''"
proof -
  let ?m1 = "\<lparr>ID = 1, To = ''+905551111111'', Content = ''hi'', Status = ''pending'',
               SentAt = None, MessageID = None, WebhookResponse = None,
               CreatedAt = 5, UpdatedAt = 6\<rparr>"
  let ?m2 = "\<lparr>ID = 1, To = ''+905551111111'', Content = ''hi'', Status = ''sending'',
               SentAt = None, MessageID = None, WebhookResponse = None,
               CreatedAt = 5, UpdatedAt = 7\<rparr>"
  let ?m3 = "\<lparr>ID = 1, To = ''+905551111111'', Content = ''hi'', Status = ''sent'',
               SentAt = Some 2000, MessageID = Some ''x'',
               WebhookResponse = Some ''{\"message_id\":\"x\"}'',
               CreatedAt = 5, UpdatedAt = 2001\<rparr>"
  let ?d1 = "\<lparr>rows = [?m1], next_id = 2\<rparr>"
  let ?d2 = "\<lparr>rows = [?m2], next_id = 2\<rparr>"
  let ?d3 = "\<lparr>rows = [?m3], next_id = 2\<rparr>"
  have r0: "reachable default_cfg sample_enc \<lparr>store = empty_db, in_flight = []\<rparr>"
    by (rule reachable.initial)
  have e1: "enqueue 5 6 None ''+905551111111'' ''hi'' empty_db = (None, ?d1)"
    by (simp add: enqueue_def CreateMessage_def insert_row_def new_message_def empty_db_def
        MaxMessageLength_def check_content_length_def character_count_def
        check_phone_format_def is_digit_def MessageStatusPending_def)
  have r1: "reachable default_cfg sample_enc \<lparr>store = ?d1, in_flight = []\<rparr>"
    using reachable.enqueued [OF r0, of 5 6 None "''+905551111111''" "''hi''" None ?d1] e1
    by simp
  have c2: "ClaimNextMessage 7 None ?d1 = (Inr (Some ?m2), ?d2)"
    by (simp add: ClaimNextMessage_def oldest_pending_def claim_row_def
        MessageStatusPending_def MessageStatusSending_def)
  have r2: "reachable default_cfg sample_enc \<lparr>store = ?d2, in_flight = [?m2]\<rparr>"
    using reachable.claimed [OF r1, of 7 None "Inr (Some ?m2)" ?d2] c2 by simp
  have p3: "processMessage default_cfg sample_enc (quiet_worker always_200) ?d2 ?m2 =
              Some (None, ?d3)"
    by (simp add: processMessage_def SendMessageWithRetry_def retry_loop.simps default_cfg_def
        always_200_def quiet_worker_def SendMessage_def UpdateMessageStatus_def update_row_def
        sample_enc_def MessageStatusSent_def)
  have r3: "reachable default_cfg sample_enc \<lparr>store = ?d3, in_flight = []\<rparr>"
    using reachable.finalized [OF r2, of ?m2 "quiet_worker always_200" None ?d3] p3 by simp
  from reachable_rows_well_formed [OF r3, of ?m3] reachable_rows_well_formed [OF r2, of ?m2]
    r3 r2
  show ?thesis
    by (simp add: MessageStatusSent_def MessageStatusSending_def)
qed

section \<open>One tick of the dispatcher\<close>

lemma rows_advance_refl: "rows_advance rs rs"
  by (simp add: rows_advance_def list_all2_refl)

lemma rows_advance_trans:
  "rows_advance rs rs' \<Longrightarrow> rows_advance rs' rs'' \<Longrightarrow> rows_advance rs rs''"
proof -
  assume a: "rows_advance rs rs'" and b: "rows_advance rs' rs''"
  show ?thesis
    unfolding rows_advance_def
    by (rule list_all2_trans [OF _ a [unfolded rows_advance_def] b [unfolded rows_advance_def]])
       auto
qed

lemma rows_advance_map:
  "(\<And>m. m \<in> set rs \<Longrightarrow> ID (g m) = ID m \<and> (is_pending (g m) \<longrightarrow> is_pending m)) \<Longrightarrow>
   rows_advance rs (map g rs)"
  by (simp add: rows_advance_def list_all2_map2 list_all2_same)

lemma rows_advance_left_pending:
  "rows_advance rs rs' \<Longrightarrow>
   length (filter (\<lambda>(m, m'). is_pending m \<and> \<not> is_pending m') (zip rs rs')) +
     length (filter is_pending rs') = length (filter is_pending rs)"
  unfolding rows_advance_def
  by (induction rule: list_all2_induct) auto

lemma rows_advance_settled:
  "rows_advance rs rs' \<Longrightarrow> \<forall>m\<in>set rs. ID m = i \<longrightarrow> \<not> is_pending m \<Longrightarrow>
   \<forall>m'\<in>set rs'. ID m' = i \<longrightarrow> \<not> is_pending m'"
  unfolding rows_advance_def
  by (induction rule: list_all2_induct) auto

lemma pending_after_claim:
  "distinct rs \<Longrightarrow> m0 \<in> set rs \<Longrightarrow> is_pending m0 \<Longrightarrow> \<not> is_pending m0' \<Longrightarrow>
   Suc (length (filter is_pending (map (\<lambda>m. if m = m0 then m0' else m) rs))) =
     length (filter is_pending rs)"
proof (induction rs)
  case Nil
  then show ?case by simp
next
  case (Cons a rs)
  show ?case
  proof (cases "a = m0")
    case True
    then have "m0 \<notin> set rs" using Cons.prems(1) by simp
    then have "map (\<lambda>m. if m = m0 then m0' else m) rs = rs"
      by (induction rs) auto
    with True Cons.prems show ?thesis by simp
  next
    case False
    with Cons show ?thesis by simp
  qed
qed

lemma pending_same_map:
  "\<forall>m\<in>set rs. is_pending (g m) = is_pending m \<Longrightarrow>
   length (filter is_pending (map g rs)) = length (filter is_pending rs)"
  by (induction rs) auto

text \<open>One claim on a well-formed table, when the driver answers.\<close>

lemma claim_step:
  assumes wf: "wf_db d"
  shows "(pending_count d = 0 \<longrightarrow> ClaimNextMessage now None d = (Inr None, d)) \<and>
         (0 < pending_count d \<longrightarrow>
            (\<exists>msg d'. ClaimNextMessage now None d = (Inr (Some msg), d') \<and>
               Suc (pending_count d') = pending_count d \<and> wf_db d' \<and>
               rows_advance (rows d) (rows d') \<and>
               (\<forall>m\<in>set (rows d'). ID m = ID msg \<longrightarrow> \<not> is_pending m)))"
proof (intro conjI impI)
  assume "pending_count d = 0"
  then show "ClaimNextMessage now None d = (Inr None, d)"
    by (simp add: pending_count_def ClaimNextMessage_none)
next
  assume "0 < pending_count d"
  then have ne: "filter is_pending (rows d) \<noteq> []" by (simp add: pending_count_def)
  let ?upd = "\<lambda>m0. m0\<lparr>Status := MessageStatusSending, UpdatedAt := now\<rparr>"
  from ClaimNextMessage_some [OF wf ne, of now] obtain m0 where
    m0: "m0 \<in> set (rows d)" "is_pending m0"
    and cl: "ClaimNextMessage now None d =
      (Inr (Some (?upd m0)), d\<lparr>rows := map (\<lambda>m. if m = m0 then ?upd m0 else m) (rows d)\<rparr>)"
    by blast
  let ?g = "\<lambda>m. if m = m0 then ?upd m0 else m"
  let ?d' = "d\<lparr>rows := map ?g (rows d)\<rparr>"
  have dist: "distinct (map ID (rows d))" using wf by (simp add: wf_db_def)
  then have drows: "distinct (rows d)" by (simp add: distinct_map)
  have np: "\<not> is_pending (?upd m0)" by (simp add: is_pending_def status_names_differ)
  have cnt: "Suc (pending_count ?d') = pending_count d"
    using pending_after_claim [OF drows m0 np] by (simp add: pending_count_def)
  have gid: "ID (?g m) = ID m" for m by simp
  have ids: "map ID (rows ?d') = map ID (rows d)"
    by (simp add: comp_def gid del: if_split)
  have "distinct (map ID (rows ?d'))" using dist by (simp only: ids)
  moreover have "list_all (\<lambda>m. 0 < ID m \<and> ID m < next_id ?d') (rows ?d')"
    using wf by (auto simp: wf_db_def list_all_iff)
  ultimately have wf': "wf_db ?d'" using wf by (simp add: wf_db_def)
  have adv: "rows_advance (rows d) (rows ?d')"
    using np by (auto intro!: rows_advance_map split: if_splits)
  have only: "\<forall>m\<in>set (rows d). ID m = ID m0 \<longrightarrow> m = m0"
    using dist m0(1) by (auto simp: distinct_map dest: inj_onD)
  have settled: "\<forall>m\<in>set (rows ?d'). ID m = ID (?upd m0) \<longrightarrow> \<not> is_pending m"
    using only np by auto
  from cl cnt wf' adv settled
  show "\<exists>msg d'. ClaimNextMessage now None d = (Inr (Some msg), d') \<and>
               Suc (pending_count d') = pending_count d \<and> wf_db d' \<and>
               rows_advance (rows d) (rows d') \<and>
               (\<forall>m\<in>set (rows d'). ID m = ID msg \<longrightarrow> \<not> is_pending m)"
    by blast
qed

lemma claim_fault_step:
  "ClaimNextMessage now (Some f) d = (Inl (StoreError f), d)"
  by (simp add: ClaimNextMessage_def)

lemma answered_past: "n \<le> i \<Longrightarrow> answered t i n = 0"
  by (simp add: answered_def)

lemma answered_step:
  "i < n \<Longrightarrow> answered t i n =
     (if claim_fault t i = None then Suc (answered t (i + 1) n) else answered t (i + 1) n)"
  by (simp add: answered_def upto_rec1 [of i "n - 1"])


lemma write_step:
  assumes rows: "rows d' = map (\<lambda>m. if ID m = i then g m else m) (rows d)"
    and gid: "\<And>m. ID (g m) = ID m" and gnp: "\<And>m. \<not> is_pending (g m)"
  shows "rows_advance (rows d) (rows d') \<and>
         ((\<forall>m\<in>set (rows d). ID m = i \<longrightarrow> \<not> is_pending m) \<longrightarrow>
            pending_count d' = pending_count d)"
proof (intro conjI impI)
  show "rows_advance (rows d) (rows d')"
    unfolding rows by (rule rows_advance_map) (simp add: gid gnp)
next
  assume "\<forall>m\<in>set (rows d). ID m = i \<longrightarrow> \<not> is_pending m"
  then have "\<forall>m\<in>set (rows d). is_pending (if ID m = i then g m else m) = is_pending m"
    by (simp add: gnp)
  from pending_same_map [OF this] show "pending_count d' = pending_count d"
    by (simp add: pending_count_def rows)
qed

text \<open>A worker writes a status that is not pending, on the rows of its message.\<close>

lemma process_step:
  assumes pm: "processMessage cfg enc w d msg = Some (p, d')"
  shows "rows_advance (rows d) (rows d') \<and>
         ((\<forall>m\<in>set (rows d). ID m = ID msg \<longrightarrow> \<not> is_pending m) \<longrightarrow>
            pending_count d' = pending_count d)"
proof -
  consider "rows d' = rows d"
    | "rows d' = map (\<lambda>m. if ID m = ID msg
                        then update_row (update_now w) MessageStatusFailed None None None m
                        else m) (rows d)"
    | t a b where "rows d' =
          map (\<lambda>m. if ID m = ID msg
                    then update_row (update_now w) MessageStatusSent (Some t) (Some a) (Some b) m
                    else m) (rows d)"
    using process_rows [OF pm] by blast
  then show ?thesis
  proof cases
    case 1
    then show ?thesis by (simp add: rows_advance_refl pending_count_def)
  next
    case 2
    show ?thesis
      by (rule write_step [OF 2])
         (simp_all add: update_row_def is_pending_def status_names_differ)
  next
    case 3
    show ?thesis
      by (rule write_step [OF 3])
         (simp_all add: update_row_def is_pending_def status_names_differ)
  qed
qed

lemma settled_advance:
  assumes "rows_advance (rows d) (rows d')" and "settled ws d" and "set ws' \<subseteq> set ws"
  shows "settled ws' d'"
  unfolding settled_def
proof
  fix x assume "x \<in> set ws'"
  with assms(2,3) have "\<forall>m\<in>set (rows d). ID m = ID x \<longrightarrow> \<not> is_pending m"
    by (auto simp: settled_def)
  then show "\<forall>m\<in>set (rows d'). ID m = ID x \<longrightarrow> \<not> is_pending m"
    by (rule rows_advance_settled [OF assms(1)])
qed

text \<open>
  Workers that do not panic, on messages whose rows are not pending, leave the
  number of pending rows as it is.
\<close>

lemma run_workers_quiet:
  assumes "0 \<le> MaxRetries (MessagingCfg cfg)" and "wf_db d" and "settled msgs d"
    and "run_workers cfg enc w msgs d = (p, d')"
  shows "p = None \<and> wf_db d' \<and> rows_advance (rows d) (rows d') \<and>
         pending_count d' = pending_count d"
  using assms(2-)
proof (induction msgs arbitrary: d)
  case Nil
  then show ?case by (simp add: rows_advance_refl)
next
  case (Cons msg msgs)
  have rest_settled: "settled msgs d" using Cons.prems(2) by (simp add: settled_def)
  show ?case
  proof (cases "processMessage cfg enc (w msg) d msg")
    case None
    with Cons.prems(3) have "run_workers cfg enc w msgs d = (p, d')" by simp
    from Cons.IH [OF Cons.prems(1) rest_settled this] show ?thesis .
  next
    case (Some r)
    obtain q d1 where r: "r = (q, d1)" by (cases r)
    with Some have pm: "processMessage cfg enc (w msg) d msg = Some (q, d1)" by simp
    have q: "q = None" by (rule processMessage_no_panic [OF assms(1) pm])
    have wf1: "wf_db d1" by (rule process_wf_db [OF Cons.prems(1) pm])
    from process_step [OF pm] Cons.prems(2)
    have adv: "rows_advance (rows d) (rows d1)" and cnt: "pending_count d1 = pending_count d"
      by (auto simp: settled_def)
    have s1: "settled msgs d1"
      by (rule settled_advance [OF adv Cons.prems(2)]) auto
    from pm q Cons.prems(3) have "run_workers cfg enc w msgs d1 = (p, d')" by simp
    from Cons.IH [OF wf1 s1 this] adv cnt show ?thesis
      by (auto intro: rows_advance_trans)
  qed
qed

lemma after_loop_quiet:
  assumes "0 \<le> MaxRetries (MessagingCfg cfg)" and "wf_db d" and "settled ws d"
  shows "tick_panic (after_loop cfg enc t ws c st d) = None \<and>
         rows_advance (rows d) (rows (tick_db (after_loop cfg enc t ws c st d))) \<and>
         pending_count (tick_db (after_loop cfg enc t ws c st d)) = pending_count d \<and>
         tick_claims (after_loop cfg enc t ws c st d) = c \<and>
         tick_started (after_loop cfg enc t ws c st d) = st"
proof -
  obtain p d' where rw: "run_workers cfg enc (worker t) ws d = (p, d')"
    by (cases "run_workers cfg enc (worker t) ws d")
  from run_workers_quiet [OF assms rw] rw show ?thesis
    by (simp add: after_loop_def)
qed

text \<open>
  The claiming loop, when no worker panics: it hands over one message per iteration
  in which the driver answers, until no pending row is left; and when the driver
  answers every claim, it issues one claim more than it hands over messages unless
  the batch is full.
\<close>

lemma claim_loop_count:
  assumes "0 \<le> MaxRetries (MessagingCfg cfg)" and "wf_db d" and "settled ws d"
  shows "tick_panic (claim_loop cfg enc t batchSize i ws c st d) = None \<and>
         rows_advance (rows d) (rows (tick_db (claim_loop cfg enc t batchSize i ws c st d))) \<and>
         pending_count (tick_db (claim_loop cfg enc t batchSize i ws c st d)) +
           min (pending_count d) (answered t i batchSize) = pending_count d \<and>
         length (tick_started (claim_loop cfg enc t batchSize i ws c st d)) =
           length st + min (pending_count d) (answered t i batchSize) \<and>
         ((\<forall>j. claim_fault t j = None) \<longrightarrow>
            tick_claims (claim_loop cfg enc t batchSize i ws c st d) =
              c + min (Suc (pending_count d)) (nat (batchSize - i)))"
  using assms
proof (induction cfg enc t batchSize i ws c st d rule: claim_loop.induct)
  case (1 cfg enc t batchSize i ws c st d)
  note mr = "1.prems"(1) and wf = "1.prems"(2) and ws = "1.prems"(3)
  show ?case
  proof (cases "i < batchSize")
    case False
    then have unfold: "claim_loop cfg enc t batchSize i ws c st d = after_loop cfg enc t ws c st d"
      by (simp add: claim_loop.simps)
    from after_loop_quiet [OF mr wf ws, of enc t c st]
    show ?thesis
      unfolding unfold using False by (auto simp: answered_past)
  next
    case True
    let ?due = "filter (finishes_before t i) ws"
    let ?rest = "filter (\<lambda>m. \<not> finishes_before t i m) ws"
    obtain p d0 where rw: "run_workers cfg enc (worker t) ?due d = (p, d0)"
      by (cases "run_workers cfg enc (worker t) ?due d")
    have due_settled: "settled ?due d" using ws by (auto simp: settled_def)
    from run_workers_quiet [OF mr wf due_settled rw]
    have p: "p = None" and wf0: "wf_db d0" and adv0: "rows_advance (rows d) (rows d0)"
      and cnt0: "pending_count d0 = pending_count d"
      by blast+
    have rest0: "settled ?rest d0"
      by (rule settled_advance [OF adv0 ws]) auto
    show ?thesis
    proof (cases "claim_fault t i")
      case (Some f)
      have cl: "ClaimNextMessage (claim_now t i) (claim_fault t i) d0 = (Inl (StoreError f), d0)"
        using Some by (simp add: claim_fault_step)
      have unfold: "claim_loop cfg enc t batchSize i ws c st d =
                      claim_loop cfg enc t batchSize (i + 1) ?rest (Suc c) st d0"
        using True rw p cl by (subst claim_loop.simps) simp
      have a: "answered t i batchSize = answered t (i + 1) batchSize"
        using True Some by (simp add: answered_step)
      from "1.IH"(1) [OF True rw [symmetric] p cl [symmetric] refl mr wf0 rest0]
      show ?thesis
        unfolding unfold using adv0 cnt0 a Some
        by (auto intro: rows_advance_trans)
    next
      case None
      have a: "answered t i batchSize = Suc (answered t (i + 1) batchSize)"
        using True None by (simp add: answered_step)
      show ?thesis
      proof (cases "pending_count d0 = 0")
        case zero: True
        then have cl: "ClaimNextMessage (claim_now t i) (claim_fault t i) d0 = (Inr None, d0)"
          using claim_step [OF wf0, of "claim_now t i"] None by simp
        have unfold: "claim_loop cfg enc t batchSize i ws c st d =
                        after_loop cfg enc t ?rest (Suc c) st d0"
          using True rw p cl by (subst claim_loop.simps) simp
        from after_loop_quiet [OF mr wf0 rest0, of enc t "Suc c" st]
        show ?thesis
          unfolding unfold using adv0 cnt0 zero True
          by (auto intro: rows_advance_trans)
      next
        case False
        then obtain msg d1 where
          cl: "ClaimNextMessage (claim_now t i) (claim_fault t i) d0 = (Inr (Some msg), d1)"
          and cnt1: "Suc (pending_count d1) = pending_count d0"
          and wf1: "wf_db d1"
          and adv1: "rows_advance (rows d0) (rows d1)"
          and settled1: "\<forall>m\<in>set (rows d1). ID m = ID msg \<longrightarrow> \<not> is_pending m"
          using claim_step [OF wf0, of "claim_now t i"] None by auto
        have unfold: "claim_loop cfg enc t batchSize i ws c st d =
                        claim_loop cfg enc t batchSize (i + 1) (?rest @ [msg]) (Suc c)
                          (st @ [msg]) d1"
          using True rw p cl by (subst claim_loop.simps) simp
        have "settled ?rest d1"
          by (rule settled_advance [OF adv1 rest0]) simp
        with settled1 have ws1: "settled (?rest @ [msg]) d1"
          by (auto simp: settled_def)
        have adv: "rows_advance (rows d) (rows d1)"
          by (rule rows_advance_trans [OF adv0 adv1])
        have n: "nat (batchSize - i) = Suc (nat (batchSize - (i + 1)))"
          using True by simp
        from "1.IH"(2) [OF True rw [symmetric] p cl [symmetric] refl refl mr wf1 ws1]
        show ?thesis
          unfolding unfold using adv cnt0 cnt1 a n
          by (auto intro: rows_advance_trans)
      qed
    qed
  qed
qed

text \<open>
  Claim C3, as amended. On a well-formed table with \<open>k\<close> pending rows, a tick with a
  batch size \<open>B\<close> and a \<open>max_retries\<close> that are not negative does not panic,
  whatever the schedule of its workers, and takes exactly as many rows out of the
  pending state as the smaller of \<open>k\<close> and the number of its \<open>B\<close> claiming
  iterations in which the driver answers: an error costs its own iteration and
  nothing else. That many messages are handed to workers. When the driver answers
  every claim, the number is \<open>min k B\<close>, and the tick issues \<open>min (k + 1) B\<close> claims:
  the serial claims stop at the first nil.
\<close>

theorem processBatch_claims_min:
  assumes "wf_db d" and "0 \<le> BatchSize (MessagingCfg cfg)"
    and "0 \<le> MaxRetries (MessagingCfg cfg)"
  shows "tick_panic (processBatch cfg enc t d) = None \<and>
         left_pending d (tick_db (processBatch cfg enc t d)) =
           min (pending_count d) (answered t 0 (BatchSize (MessagingCfg cfg))) \<and>
         length (tick_started (processBatch cfg enc t d)) =
           left_pending d (tick_db (processBatch cfg enc t d)) \<and>
         ((\<forall>i. claim_fault t i = None) \<longrightarrow>
            int (left_pending d (tick_db (processBatch cfg enc t d))) =
              min (int (pending_count d)) (BatchSize (MessagingCfg cfg)) \<and>
            int (tick_claims (processBatch cfg enc t d)) =
              min (int (pending_count d) + 1) (BatchSize (MessagingCfg cfg)))"
proof -
  let ?B = "BatchSize (MessagingCfg cfg)"
  let ?r = "claim_loop cfg enc t ?B 0 [] 0 [] d"
  have pb: "processBatch cfg enc t d = ?r"
    using assms(2) by (simp add: processBatch_def)
  have none: "settled [] d" by (simp add: settled_def)
  from claim_loop_count [OF assms(3) assms(1) none, of enc t ?B 0 0 "[]"]
  have panic: "tick_panic ?r = None"
    and adv: "rows_advance (rows d) (rows (tick_db ?r))"
    and cnt: "pending_count (tick_db ?r) + min (pending_count d) (answered t 0 ?B) =
                pending_count d"
    and started: "length (tick_started ?r) = min (pending_count d) (answered t 0 ?B)"
    and claims: "(\<forall>j. claim_fault t j = None) \<longrightarrow>
                   tick_claims ?r = min (Suc (pending_count d)) (nat ?B)"
    by simp_all
  from rows_advance_left_pending [OF adv]
  have "left_pending d (tick_db ?r) + pending_count (tick_db ?r) = pending_count d"
    by (simp add: left_pending_def pending_count_def)
  with cnt have main: "left_pending d (tick_db ?r) = min (pending_count d) (answered t 0 ?B)"
    by simp
  have quiet: "answered t 0 ?B = nat ?B" if "\<forall>i. claim_fault t i = None"
    using that by (simp add: answered_def)
  show ?thesis
    unfolding pb using panic main started claims quiet assms(2) by auto
qed

text \<open>
  Scenario A of the specification: three pending rows, batch size 2, a receiver
  answering 200, with the workers ending after the loop or each before the next
  claim. The same tick with a driver error at its first claim. And a batch of five:
  the fourth claim returns nil and is the last.
\<close>

theorem processBatch_claims_min_witness:
  "wf_db three_pending \<and> pending_count three_pending = 3 \<and>
   BatchSize (MessagingCfg default_cfg) = 2 \<and> MaxRetries (MessagingCfg default_cfg) = 3 \<and>
   left_pending three_pending
     (tick_db (processBatch default_cfg sample_enc (quiet_tick always_200) three_pending)) = 2 \<and>
   map Status
     (rows (tick_db (processBatch default_cfg sample_enc (quiet_tick always_200)
        three_pending))) = [''pending'', ''sent'', ''sent''] \<and>
   map Status
     (rows (tick_db (processBatch default_cfg sample_enc (eager_tick always_200)
        three_pending))) = [''pending'', ''sent'', ''sent''] \<and>
   left_pending three_pending
     (tick_db (processBatch default_cfg sample_enc (faulty_tick always_200) three_pending)) = 1 \<and>
   left_pending three_pending
     (tick_db (processBatch (with_batch_size 5 default_cfg) sample_enc (quiet_tick always_200)
        three_pending)) = 3 \<and>
   tick_claims (processBatch (with_batch_size 5 default_cfg) sample_enc (quiet_tick always_200)
        three_pending) = 4"
proof -
  have b: "BatchSize (MessagingCfg default_cfg) = 2" "MaxRetries (MessagingCfg default_cfg) = 3"
    "BatchSize (MessagingCfg (with_batch_size 5 default_cfg)) = 5"
    "MaxRetries (MessagingCfg (with_batch_size 5 default_cfg)) = 3"
    by (simp_all add: default_cfg_def with_batch_size_def)
  have p: "pending_count three_pending = 3"
    by (simp add: pending_count_def three_pending_def new_message_def is_pending_def)
  have q: "\<forall>i. claim_fault (quiet_tick always_200) i = None" by (simp add: quiet_tick_def)
  have f: "answered (faulty_tick always_200) 0 2 = 1"
    by (simp add: answered_def faulty_tick_def quiet_tick_def upto_rec1)
  have st: "map Status
     (rows (tick_db (processBatch default_cfg sample_enc (quiet_tick always_200)
        three_pending))) = [''pending'', ''sent'', ''sent'']"
    "map Status
     (rows (tick_db (processBatch default_cfg sample_enc (eager_tick always_200)
        three_pending))) = [''pending'', ''sent'', ''sent'']"
    by code_simp+
  from processBatch_claims_min
      [OF wf_three_pending, of default_cfg sample_enc "quiet_tick always_200"]
    processBatch_claims_min
      [OF wf_three_pending, of default_cfg sample_enc "faulty_tick always_200"]
    processBatch_claims_min
      [OF wf_three_pending, of "with_batch_size 5 default_cfg" sample_enc
         "quiet_tick always_200"]
    wf_three_pending b p q f st
  show ?thesis by simp
qed

text \<open>
  Outside these bounds the statement fails. With \<open>B = -1\<close> the tick panics when it
  makes its channel, no row leaves the pending state, and zero is not \<open>min 3 (-1)\<close>.
  With \<open>B = 3\<close> and \<open>max_retries = -1\<close>, when the first worker comes to its end before
  the second claim, its panic ends the process: one row has left the pending state,
  not three.
\<close>

theorem processBatch_out_of_bounds_counterexample:
  "pending_count three_pending = 3 \<and>
   tick_panic (processBatch (with_batch_size (- 1) default_cfg) sample_enc
     (quiet_tick always_200) three_pending) = Some ''makechan: size out of range'' \<and>
   left_pending three_pending
     (tick_db (processBatch (with_batch_size (- 1) default_cfg) sample_enc
        (quiet_tick always_200) three_pending)) = 0 \<and>
   int (left_pending three_pending
     (tick_db (processBatch (with_batch_size (- 1) default_cfg) sample_enc
        (quiet_tick always_200) three_pending))) \<noteq>
     min (int (pending_count three_pending))
       (BatchSize (MessagingCfg (with_batch_size (- 1) default_cfg))) \<and>
   tick_panic (processBatch (with_batch_size 3 (with_max_retries (- 1) default_cfg)) sample_enc
     (eager_tick always_200) three_pending) = Some ''nil pointer dereference'' \<and>
   left_pending three_pending
     (tick_db (processBatch (with_batch_size 3 (with_max_retries (- 1) default_cfg)) sample_enc
        (eager_tick always_200) three_pending)) = 1 \<and>
   int (left_pending three_pending
     (tick_db (processBatch (with_batch_size 3 (with_max_retries (- 1) default_cfg)) sample_enc
        (eager_tick always_200) three_pending))) \<noteq>
     min (int (pending_count three_pending))
       (BatchSize (MessagingCfg (with_batch_size 3 (with_max_retries (- 1) default_cfg))))"
  by code_simp

end
